theory Spec2Isabelle
  imports Complex_Main "HOL-Library.Char_ord" "HOL-Library.List_Lexorder"
    "HOL-Library.Product_Lexorder"
begin

section \<open>Python values, errors and string primitives\<close>

text \<open>
  The dashboard reads spreadsheet cells (Python \<open>str\<close>) and turns them into dates and
  numbers. Exceptions are values: a fallible operation returns \<open>error + 'a\<close>, with
  \<open>Inl\<close> the exception raised. Python floats are idealised as exact rationals; the
  non-finite literals (\<open>inf\<close>, \<open>nan\<close>) that \<open>float()\<close> also accepts have no
  counterpart in this number type and are rejected by \<open>py_float\<close> below, as are
  non-ASCII digits. Strings are ASCII.
\<close>

datatype error = ValueError | AttributeError | TypeError | IndexError | ZeroDivisionError

datatype pyval = PStr string | PNone | PInt int

definition ebind :: "error + 'a \<Rightarrow> ('a \<Rightarrow> error + 'b) \<Rightarrow> error + 'b" where
  "ebind r f = (case r of Inl e \<Rightarrow> Inl e | Inr x \<Rightarrow> f x)"

definition is_space :: "char \<Rightarrow> bool" where
  "is_space c \<longleftrightarrow> c \<in> set [CHR '' '', CHR 0x09, CHR 0x0A, CHR 0x0B, CHR 0x0C, CHR 0x0D,
                          CHR 0x1C, CHR 0x1D, CHR 0x1E, CHR 0x1F]"

definition is_digit :: "char \<Rightarrow> bool" where
  "is_digit c \<longleftrightarrow> c \<in> set ''0123456789''"

definition digit_val :: "char \<Rightarrow> int" where
  "digit_val c =
     (case map_of (zip ''0123456789'' [0, 1, 2, 3, 4, 5, 6, 7, 8, 9]) c of
        Some v \<Rightarrow> v | None \<Rightarrow> 0)"

definition digit_char :: "int \<Rightarrow> char" where
  "digit_char k = ''0123456789'' ! nat (k mod 10)"

definition lower_char :: "char \<Rightarrow> char" where
  "lower_char c =
     (case map_of (zip ''ABCDEFGHIJKLMNOPQRSTUVWXYZ'' ''abcdefghijklmnopqrstuvwxyz'') c of
        Some l \<Rightarrow> l | None \<Rightarrow> c)"

definition upper_char :: "char \<Rightarrow> char" where
  "upper_char c =
     (case map_of (zip ''abcdefghijklmnopqrstuvwxyz'' ''ABCDEFGHIJKLMNOPQRSTUVWXYZ'') c of
        Some u \<Rightarrow> u | None \<Rightarrow> c)"

definition is_alpha :: "char \<Rightarrow> bool" where
  "is_alpha c \<longleftrightarrow> c \<in> set ''abcdefghijklmnopqrstuvwxyzABCDEFGHIJKLMNOPQRSTUVWXYZ''"

text \<open>\<open>s.strip()\<close>, \<open>s.lower()\<close>, \<open>s.replace(",", "")\<close>.\<close>

definition strip :: "string \<Rightarrow> string" where
  "strip s = rev (dropWhile is_space (rev (dropWhile is_space s)))"

definition lower :: "string \<Rightarrow> string" where
  "lower s = map lower_char s"

definition remove_commas :: "string \<Rightarrow> string" where
  "remove_commas s = filter (\<lambda>c. c \<noteq> CHR '','') s"

text \<open>\<open>s.title()\<close>: a letter that follows a letter is lower-cased, any other letter is
  upper-cased.\<close>

fun title_from :: "bool \<Rightarrow> string \<Rightarrow> string" where
  "title_from prev [] = []"
| "title_from prev (c # cs) =
     (if is_alpha c then (if prev then lower_char c else upper_char c) # title_from True cs
      else c # title_from False cs)"

definition title :: "string \<Rightarrow> string" where
  "title s = title_from False s"

fun starts_with :: "string \<Rightarrow> string \<Rightarrow> bool" where
  "starts_with [] s = True"
| "starts_with (p # ps) [] = False"
| "starts_with (p # ps) (c # cs) = (p = c \<and> starts_with ps cs)"

text \<open>\<open>sub in s\<close> for strings.\<close>

fun contains :: "string \<Rightarrow> string \<Rightarrow> bool" where
  "contains sub [] = (sub = [])"
| "contains sub (c # cs) = (starts_with sub (c # cs) \<or> contains sub cs)"

text \<open>\<open>s.split(sep)\<close> for a non-empty separator: left to right, occurrences do not
  overlap. \<open>acc\<close> holds the current piece, reversed.\<close>

function split_from :: "string \<Rightarrow> string \<Rightarrow> string \<Rightarrow> string list" where
  "split_from sep acc [] = [rev acc]"
| "split_from sep acc (c # cs) =
     (if sep \<noteq> [] \<and> starts_with sep (c # cs)
      then rev acc # split_from sep [] (drop (length sep) (c # cs))
      else split_from sep (c # acc) cs)"
  by pat_completeness auto
termination
  by (relation "measure (\<lambda>(sep, acc, s). length s)") (auto simp: neq_Nil_conv)

definition split :: "string \<Rightarrow> string \<Rightarrow> string list" where
  "split sep s = split_from sep [] s"

text \<open>\<open>row[i]\<close> for a non-negative index.\<close>

definition index :: "'a list \<Rightarrow> nat \<Rightarrow> error + 'a" where
  "index xs i = (if i < length xs then Inr (xs ! i) else Inl IndexError)"

section \<open>Numbers\<close>

text \<open>\<open>round(x, n)\<close>: round half to even at \<open>n\<close> decimal places.\<close>

definition round_half_even :: "rat \<Rightarrow> int" where
  "round_half_even x =
     (let f = \<lfloor>x\<rfloor>; r = x - of_int f
      in if r < 1 / 2 then f else if 1 / 2 < r then f + 1
         else if even f then f else f + 1)"

definition py_round :: "rat \<Rightarrow> nat \<Rightarrow> rat" where
  "py_round x n = of_int (round_half_even (x * 10 ^ n)) / 10 ^ n"

text \<open>\<open>int(x)\<close> on a float truncates towards zero.\<close>

definition py_int :: "rat \<Rightarrow> int" where
  "py_int x = (if 0 \<le> x then \<lfloor>x\<rfloor> else \<lceil>x\<rceil>)"

definition truediv :: "rat \<Rightarrow> rat \<Rightarrow> error + rat" where
  "truediv a b = (if b = 0 then Inl ZeroDivisionError else Inr (a / b))"

text \<open>\<open>sum(xs) / len(xs)\<close>.\<close>

definition mean :: "rat list \<Rightarrow> error + rat" where
  "mean xs = truediv (sum_list xs) (of_nat (length xs))"

text \<open>\<open>min(xs)\<close> and \<open>max(xs)\<close> raise \<open>ValueError\<close> on an empty sequence.\<close>

definition py_min :: "'a::linorder list \<Rightarrow> error + 'a" where
  "py_min xs = (case xs of [] \<Rightarrow> Inl ValueError | y # ys \<Rightarrow> Inr (fold min ys y))"

definition py_max :: "'a::linorder list \<Rightarrow> error + 'a" where
  "py_max xs = (case xs of [] \<Rightarrow> Inl ValueError | y # ys \<Rightarrow> Inr (fold max ys y))"

section \<open>helpers.py: \<open>safe_float\<close>\<close>

text \<open>\<open>str(val)\<close> for the values a cell or a missing cell can be.\<close>

function show_nat :: "int \<Rightarrow> string" where
  "show_nat n = (if n < 10 then [digit_char n] else show_nat (n div 10) @ [digit_char n])"
  by pat_completeness auto
termination
  by (relation "measure nat") auto

definition py_str :: "pyval \<Rightarrow> string" where
  "py_str v = (case v of PStr s \<Rightarrow> s | PNone \<Rightarrow> ''None''
     | PInt i \<Rightarrow> (if i < 0 then CHR ''-'' # show_nat (- i) else show_nat i))"

text \<open>
  The builtin \<open>float(s)\<close> on a string: surrounding whitespace is ignored, then an
  optional sign, a decimal mantissa with at least one digit, and an optional exponent.
  Single underscores between digits are allowed. Anything else raises \<open>ValueError\<close>.
\<close>

definition digits_val :: "string \<Rightarrow> int" where
  "digits_val ds = foldl (\<lambda>a c. 10 * a + digit_val c) 0 ds"

fun underscores_ok :: "char option \<Rightarrow> string \<Rightarrow> bool" where
  "underscores_ok p [] = True"
| "underscores_ok p (c # cs) =
     (if c = CHR ''_''
      then (case p of Some d \<Rightarrow> is_digit d | None \<Rightarrow> False) \<and>
           (case cs of x # _ \<Rightarrow> is_digit x | [] \<Rightarrow> False) \<and> underscores_ok (Some c) cs
      else underscores_ok (Some c) cs)"

definition unsign :: "string \<Rightarrow> bool \<times> string" where
  "unsign s = (case s of [] \<Rightarrow> (False, [])
     | c # cs \<Rightarrow> if c = CHR ''-'' then (True, cs) else if c = CHR ''+'' then (False, cs)
                else (False, c # cs))"

definition exponent :: "string \<Rightarrow> int option" where
  "exponent s = (case s of [] \<Rightarrow> Some 0
     | c # cs \<Rightarrow>
         if c = CHR ''e'' \<or> c = CHR ''E''
         then (let (neg, ds) = unsign cs
               in if ds \<noteq> [] \<and> list_all is_digit ds
                  then Some (if neg then - digits_val ds else digits_val ds)
                  else None)
         else None)"

definition scale10 :: "rat \<Rightarrow> int \<Rightarrow> rat" where
  "scale10 x e = (if 0 \<le> e then x * 10 ^ nat e else x / 10 ^ nat (- e))"

definition py_float :: "string \<Rightarrow> error + rat" where
  "py_float s =
     (let t = strip s in
      if \<not> underscores_ok None t then Inl ValueError
      else
        let (neg, u) = unsign (filter (\<lambda>c. c \<noteq> CHR ''_'') t);
            ip = takeWhile is_digit u;
            r1 = dropWhile is_digit u;
            (fp, r2) = (case r1 of [] \<Rightarrow> ([], [])
                        | c # cs \<Rightarrow> if c = CHR ''.''
                                   then (takeWhile is_digit cs, dropWhile is_digit cs)
                                   else ([], c # cs))
        in if ip = [] \<and> fp = [] then Inl ValueError
           else (case exponent r2 of
                   None \<Rightarrow> Inl ValueError
                 | Some e \<Rightarrow>
                     let m = scale10 (of_int (digits_val ip)
                                      + of_int (digits_val fp) / 10 ^ length fp) e
                     in Inr (if neg then - m else m)))"

text \<open>
  \<^verbatim>\<open>
  def safe_float(val):
      try:
          return float(str(val).replace(",", "").strip())
      except (ValueError, TypeError):
          return 0.0
  \<close>
\<close>

definition safe_float :: "pyval \<Rightarrow> error + rat" where
  "safe_float val =
     (case py_float (strip (remove_commas (py_str val))) of
        Inr x \<Rightarrow> Inr x
      | Inl e \<Rightarrow> if e = ValueError \<or> e = TypeError then Inr 0 else Inl e)"

section \<open>helpers.py: \<open>parse_date\<close>\<close>

text \<open>
  A \<open>datetime\<close> produced by the formats below has no time of day, so it is modelled by
  its calendar date (year, month, day); the lexicographic order of the triple is the
  chronological order Python compares by.
\<close>

type_synonym date = "int \<times> int \<times> int"

definition dt_year :: "date \<Rightarrow> int" where
  "dt_year dt = fst dt"

definition is_leap :: "int \<Rightarrow> bool" where
  "is_leap y \<longleftrightarrow> y mod 4 = 0 \<and> (y mod 100 \<noteq> 0 \<or> y mod 400 = 0)"

definition days_in_month :: "int \<Rightarrow> int \<Rightarrow> int" where
  "days_in_month y m =
     (if m = 2 then (if is_leap y then 29 else 28)
      else if m = 4 \<or> m = 6 \<or> m = 9 \<or> m = 11 then 30 else 31)"

definition valid_date :: "date \<Rightarrow> bool" where
  "valid_date dt = (case dt of (y, m, d) \<Rightarrow>
     1 \<le> y \<and> y \<le> 9999 \<and> 1 \<le> m \<and> m \<le> 12 \<and> 1 \<le> d \<and> d \<le> days_in_month y m)"

text \<open>
  \<open>datetime.strptime(s, fmt)\<close> turns the format into a regular expression, one group per
  directive, and matches it against the start of \<open>s\<close>, ignoring case, with backtracking.
  A format is modelled by its list of directives; a run of whitespace in the format
  stands for one or more whitespace characters.
\<close>

datatype directive = DayOfMonth | MonthNum | Year4 | MonthAbbr | MonthFull | Lit char | Spaces

fun compile_from :: "bool \<Rightarrow> string \<Rightarrow> directive list option" where
  "compile_from ws [] = Some []"
| "compile_from ws [c] =
     (if c = CHR ''%'' then None
      else if is_space c then Some (if ws then [] else [Spaces])
      else Some [Lit c])"
| "compile_from ws (c # x # cs) =
     (if c = CHR ''%'' then
        (case (if x = CHR ''d'' then Some DayOfMonth else if x = CHR ''m'' then Some MonthNum
               else if x = CHR ''Y'' then Some Year4 else if x = CHR ''b'' then Some MonthAbbr
               else if x = CHR ''B'' then Some MonthFull else None) of
           None \<Rightarrow> None
         | Some d \<Rightarrow> map_option (Cons d) (compile_from False cs))
      else if is_space c then
        map_option (\<lambda>ds. if ws then ds else Spaces # ds) (compile_from True (x # cs))
      else map_option (Cons (Lit c)) (compile_from False (x # cs)))"

definition compile_fmt :: "string \<Rightarrow> directive list option" where
  "compile_fmt fmt = compile_from False fmt"

text \<open>The alternatives of each group, in the order the regular expression tries them:
  \<open>%d\<close> is \<^verbatim>\<open>3[0-1]|[1-2]\d|0[1-9]|[1-9]| [1-9]\<close>, \<open>%m\<close> is
  \<^verbatim>\<open>1[0-2]|0[1-9]|[1-9]\<close>, \<open>%Y\<close> is four digits. Each alternative
  gives the value read and the rest of the input.\<close>

definition nonzero_digit :: "char \<Rightarrow> bool" where
  "nonzero_digit c \<longleftrightarrow> is_digit c \<and> c \<noteq> CHR ''0''"

definition day_alts :: "string \<Rightarrow> (int \<times> string) list" where
  "day_alts s =
     (case s of a # b # r \<Rightarrow>
        (if a = CHR ''3'' \<and> (b = CHR ''0'' \<or> b = CHR ''1'') then [(30 + digit_val b, r)] else []) @
        (if (a = CHR ''1'' \<or> a = CHR ''2'') \<and> is_digit b
         then [(10 * digit_val a + digit_val b, r)] else []) @
        (if a = CHR ''0'' \<and> nonzero_digit b then [(digit_val b, r)] else [])
      | _ \<Rightarrow> []) @
     (case s of a # r \<Rightarrow> if nonzero_digit a then [(digit_val a, r)] else [] | [] \<Rightarrow> []) @
     (case s of a # b # r \<Rightarrow>
        if a = CHR '' '' \<and> nonzero_digit b then [(digit_val b, r)] else []
      | _ \<Rightarrow> [])"

definition month_alts :: "string \<Rightarrow> (int \<times> string) list" where
  "month_alts s =
     (case s of a # b # r \<Rightarrow>
        (if a = CHR ''1'' \<and> (b = CHR ''0'' \<or> b = CHR ''1'' \<or> b = CHR ''2'')
         then [(10 + digit_val b, r)] else []) @
        (if a = CHR ''0'' \<and> nonzero_digit b then [(digit_val b, r)] else [])
      | _ \<Rightarrow> []) @
     (case s of a # r \<Rightarrow> if nonzero_digit a then [(digit_val a, r)] else [] | [] \<Rightarrow> [])"

definition year_alts :: "string \<Rightarrow> (int \<times> string) list" where
  "year_alts s =
     (case s of a # b # c # d # r \<Rightarrow>
        if is_digit a \<and> is_digit b \<and> is_digit c \<and> is_digit d
        then [(digits_val [a, b, c, d], r)] else []
      | _ \<Rightarrow> [])"

text \<open>Month names of the C locale, lower-cased, in the order the regular expression lists
  them (longest first).\<close>

definition abbr_names :: "(string \<times> int) list" where
  "abbr_names = [(''jan'', 1), (''feb'', 2), (''mar'', 3), (''apr'', 4), (''may'', 5),
     (''jun'', 6), (''jul'', 7), (''aug'', 8), (''sep'', 9), (''oct'', 10), (''nov'', 11),
     (''dec'', 12)]"

definition full_names :: "(string \<times> int) list" where
  "full_names = [(''september'', 9), (''february'', 2), (''november'', 11), (''december'', 12),
     (''january'', 1), (''october'', 10), (''august'', 8), (''march'', 3), (''april'', 4),
     (''june'', 6), (''july'', 7), (''may'', 5)]"

fun name_alts :: "(string \<times> int) list \<Rightarrow> string \<Rightarrow> (int \<times> string) list" where
  "name_alts [] s = []"
| "name_alts ((nm, i) # ns) s =
     (if length nm \<le> length s \<and> lower (take (length nm) s) = nm
      then [(i, drop (length nm) s)] else []) @ name_alts ns s"

text \<open>Greedy \<^verbatim>\<open>\s+\<close>: the longest run of whitespace first, then shorter ones.\<close>

definition space_alts :: "string \<Rightarrow> string list" where
  "space_alts s = map (\<lambda>k. drop k s) (rev [1 ..< Suc (length (takeWhile is_space s))])"

text \<open>All ways the directives can match a prefix of the input, in the order a backtracking
  matcher finds them, each with the fields read and the unmatched rest.\<close>

fun match_dirs :: "directive list \<Rightarrow> date \<Rightarrow> string \<Rightarrow> (date \<times> string) list" where
  "match_dirs [] f s = [(f, s)]"
| "match_dirs (Lit c # ds) f s =
     (case s of [] \<Rightarrow> []
      | x # xs \<Rightarrow> if lower_char x = lower_char c then match_dirs ds f xs else [])"
| "match_dirs (Spaces # ds) f s = concat (map (match_dirs ds f) (space_alts s))"
| "match_dirs (DayOfMonth # ds) f s =
     concat (map (\<lambda>(v, r). match_dirs ds (fst f, fst (snd f), v) r) (day_alts s))"
| "match_dirs (MonthNum # ds) f s =
     concat (map (\<lambda>(v, r). match_dirs ds (fst f, v, snd (snd f)) r) (month_alts s))"
| "match_dirs (MonthAbbr # ds) f s =
     concat (map (\<lambda>(v, r). match_dirs ds (fst f, v, snd (snd f)) r) (name_alts abbr_names s))"
| "match_dirs (MonthFull # ds) f s =
     concat (map (\<lambda>(v, r). match_dirs ds (fst f, v, snd (snd f)) r) (name_alts full_names s))"
| "match_dirs (Year4 # ds) f s =
     concat (map (\<lambda>(v, r). match_dirs ds (v, snd f) r) (year_alts s))"

text \<open>The first match decides: \<open>ValueError\<close> if there is none, if it leaves input
  unconverted, or if the fields are not a date of the calendar.\<close>

definition strptime :: "string \<Rightarrow> string \<Rightarrow> error + date" where
  "strptime s fmt =
     (case compile_fmt fmt of
        None \<Rightarrow> Inl ValueError
      | Some ds \<Rightarrow>
          (case match_dirs ds (1900, 1, 1) s of
             [] \<Rightarrow> Inl ValueError
           | (dt, rest) # _ \<Rightarrow>
               if rest \<noteq> [] then Inl ValueError
               else if valid_date dt then Inr dt else Inl ValueError))"

text \<open>\<open>val.strip()\<close>: only a string has the method.\<close>

definition py_strip :: "pyval \<Rightarrow> error + string" where
  "py_strip val = (case val of PStr s \<Rightarrow> Inr (strip s) | _ \<Rightarrow> Inl AttributeError)"

text \<open>
  \<^verbatim>\<open>
  def parse_date(val):
      for fmt in (
          "%d-%b-%Y", "%Y-%m-%d", "%m/%d/%Y", "%d/%m/%Y",
          "%d %b %Y", "%b %d, %Y", "%Y/%m/%d", "%d-%m-%Y",
          "%d %B %Y", "%B %d, %Y",
      ):
          try:
              return datetime.strptime(val.strip(), fmt)
          except (ValueError, AttributeError):
              continue
      return None
  \<close>
\<close>

definition date_formats :: "string list" where
  "date_formats = [''%d-%b-%Y'', ''%Y-%m-%d'', ''%m/%d/%Y'', ''%d/%m/%Y'',
     ''%d %b %Y'', ''%b %d, %Y'', ''%Y/%m/%d'', ''%d-%m-%Y'',
     ''%d %B %Y'', ''%B %d, %Y'']"

fun parse_date_loop :: "string list \<Rightarrow> pyval \<Rightarrow> error + date option" where
  "parse_date_loop [] val = Inr None"
| "parse_date_loop (fmt # fmts) val =
     (case ebind (py_strip val) (\<lambda>s. strptime s fmt) of
        Inr dt \<Rightarrow> Inr (Some dt)
      | Inl e \<Rightarrow> if e = ValueError \<or> e = AttributeError then parse_date_loop fmts val
                 else Inl e)"

definition parse_date :: "pyval \<Rightarrow> error + date option" where
  "parse_date val = parse_date_loop date_formats val"

text \<open>\<open>dt.isocalendar()\<close>, after CPython's \<open>datetime\<close>: proleptic Gregorian ordinals,
  week 1 is the week with the year's first Thursday.\<close>

definition days_before_year :: "int \<Rightarrow> int" where
  "days_before_year y = (y - 1) * 365 + (y - 1) div 4 - (y - 1) div 100 + (y - 1) div 400"

definition days_before_month :: "int \<Rightarrow> int \<Rightarrow> int" where
  "days_before_month y m = sum_list (map (days_in_month y) [1 .. m - 1])"

definition ymd2ord :: "date \<Rightarrow> int" where
  "ymd2ord dt = (case dt of (y, m, d) \<Rightarrow> days_before_year y + days_before_month y m + d)"

definition isoweek1monday :: "int \<Rightarrow> int" where
  "isoweek1monday y =
     (let firstday = ymd2ord (y, 1, 1);
          firstweekday = (firstday + 6) mod 7;
          week1monday = firstday - firstweekday
      in if firstweekday > 3 then week1monday + 7 else week1monday)"

definition isocalendar :: "date \<Rightarrow> int \<times> int \<times> int" where
  "isocalendar dt =
     (let y = dt_year dt;
          today = ymd2ord dt;
          week = (today - isoweek1monday y) div 7;
          day = (today - isoweek1monday y) mod 7
      in if week < 0
         then (y - 1, (today - isoweek1monday (y - 1)) div 7 + 1,
               (today - isoweek1monday (y - 1)) mod 7 + 1)
         else if week \<ge> 52 \<and> today \<ge> isoweek1monday (y + 1) then (y + 1, 1, day + 1)
         else (y, week + 1, day + 1))"

section \<open>Dictionaries and loops that can fail\<close>

text \<open>A \<open>defaultdict\<close> is an association list in insertion order: \<open>d[k]\<close> gives the
  default for a missing key, and storing under a new key appends it.\<close>

definition lookup_default :: "'v \<Rightarrow> ('k \<times> 'v) list \<Rightarrow> 'k \<Rightarrow> 'v" where
  "lookup_default dflt m k = (case map_of m k of None \<Rightarrow> dflt | Some v \<Rightarrow> v)"

fun store :: "'k \<Rightarrow> 'v \<Rightarrow> ('k \<times> 'v) list \<Rightarrow> ('k \<times> 'v) list" where
  "store k v [] = [(k, v)]"
| "store k v ((k', v') # m) = (if k' = k then (k, v) # m else (k', v') # store k v m)"

fun emap :: "('a \<Rightarrow> error + 'b) \<Rightarrow> 'a list \<Rightarrow> error + 'b list" where
  "emap f [] = Inr []"
| "emap f (x # xs) = ebind (f x) (\<lambda>y. ebind (emap f xs) (\<lambda>ys. Inr (y # ys)))"

fun efold :: "('s \<Rightarrow> 'a \<Rightarrow> error + 's) \<Rightarrow> 's \<Rightarrow> 'a list \<Rightarrow> error + 's" where
  "efold f st [] = Inr st"
| "efold f st (x # xs) = ebind (f st x) (\<lambda>st'. efold f st' xs)"

text \<open>\<open>round((cur - prev) / prev * 100, 1)\<close>.\<close>

definition pct_change :: "rat \<Rightarrow> rat \<Rightarrow> error + rat" where
  "pct_change cur prev = ebind (truediv (cur - prev) prev) (\<lambda>q. Inr (py_round (q * 100) 1))"

section \<open>weekly_purchase.py: \<open>aggregate_weekly\<close>\<close>

definition COL_DATE :: nat where "COL_DATE = 0"
definition COL_BIRDS :: nat where "COL_BIRDS = 5"
definition COL_CHICKEN_WT :: nat where "COL_CHICKEN_WT = 8"
definition COL_GIZZARD_WT :: nat where "COL_GIZZARD_WT = 9"

text \<open>The value of \<open>weeks[key]\<close>, and the \<open>defaultdict\<close>'s default.\<close>

record week_acc =
  acc_birds :: int
  acc_chicken_wt :: rat
  acc_gizzard_wt :: rat
  acc_dates :: "date list"

definition week_default :: week_acc where
  "week_default = \<lparr>acc_birds = 0, acc_chicken_wt = 0, acc_gizzard_wt = 0, acc_dates = []\<rparr>"

text \<open>One dictionary of \<open>result\<close>: as appended by the second loop, and with the
  week-over-week keys the third loop adds.\<close>

record week_stats =
  year :: int
  week :: int
  start :: date
  end_date :: date
  purchase_days :: nat
  birds :: int
  chicken_wt :: rat
  gizzard_wt :: rat
  total_wt :: rat
  avg_birds_day :: rat
  avg_wt_day :: rat

record week_row = week_stats +
  birds_wow :: "rat option"
  wt_wow :: "rat option"

text \<open>\<open>weeks[key][field] += v\<close> and \<open>weeks[key]["dates"].append(dt)\<close>: read the entry
  (or the default), change it, store it.\<close>

definition bump ::
  "(int \<times> int) \<Rightarrow> (week_acc \<Rightarrow> week_acc) \<Rightarrow> ((int \<times> int) \<times> week_acc) list
     \<Rightarrow> ((int \<times> int) \<times> week_acc) list" where
  "bump key f weeks = store key (f (lookup_default week_default weeks key)) weeks"

definition week_key :: "date \<Rightarrow> int \<times> int" where
  "week_key dt = (case isocalendar dt of (iso_year, iso_week, _) \<Rightarrow> (iso_year, iso_week))"

text \<open>\<open>int(safe_float(row[COL_BIRDS])) if row[COL_BIRDS] else 0\<close> and
  \<open>safe_float(row[i])\<close>.\<close>

definition birds_cell :: "string list \<Rightarrow> error + int" where
  "birds_cell row =
     ebind (index row COL_BIRDS) (\<lambda>b.
       if b \<noteq> [] then ebind (safe_float (PStr b)) (\<lambda>x. Inr (py_int x)) else Inr 0)"

definition float_cell :: "string list \<Rightarrow> nat \<Rightarrow> error + rat" where
  "float_cell row i = ebind (index row i) (\<lambda>c. safe_float (PStr c))"

text \<open>The body of the first loop; \<open>current_year\<close> is \<open>datetime.now().year\<close>.\<close>

definition purchase_add ::
  "date \<Rightarrow> ((int \<times> int) \<times> week_acc) list \<Rightarrow> string list
     \<Rightarrow> error + ((int \<times> int) \<times> week_acc) list" where
  "purchase_add dt weeks row =
     (let key = week_key dt in
      ebind (birds_cell row) (\<lambda>n.
      ebind (float_cell row COL_CHICKEN_WT) (\<lambda>x.
      ebind (float_cell row COL_GIZZARD_WT) (\<lambda>y.
      Inr (bump key (\<lambda>w. w\<lparr>acc_dates := acc_dates w @ [dt]\<rparr>)
          (bump key (\<lambda>w. w\<lparr>acc_gizzard_wt := acc_gizzard_wt w + y\<rparr>)
          (bump key (\<lambda>w. w\<lparr>acc_chicken_wt := acc_chicken_wt w + x\<rparr>)
          (bump key (\<lambda>w. w\<lparr>acc_birds := acc_birds w + n\<rparr>) weeks))))))))"

definition purchase_row ::
  "int \<Rightarrow> ((int \<times> int) \<times> week_acc) list \<Rightarrow> string list
     \<Rightarrow> error + ((int \<times> int) \<times> week_acc) list" where
  "purchase_row current_year weeks row =
     ebind (index row COL_DATE) (\<lambda>c.
     ebind (parse_date (PStr c)) (\<lambda>r.
       case r of
         None \<Rightarrow> Inr weeks
       | Some dt \<Rightarrow>
           if dt_year dt \<noteq> current_year then Inr weeks else purchase_add dt weeks row))"

text \<open>The body of the second loop, for one item of \<open>sorted(weeks.items())\<close>.\<close>

definition week_stats_of :: "(int \<times> int) \<times> week_acc \<Rightarrow> error + week_stats" where
  "week_stats_of item =
     (case item of ((yr, wk), vals) \<Rightarrow>
        ebind (py_min (acc_dates vals)) (\<lambda>mn.
        ebind (py_max (acc_dates vals)) (\<lambda>mx.
        let pd = length (remdups (acc_dates vals));
            tw = py_round (acc_chicken_wt vals + acc_gizzard_wt vals) 2 in
        ebind (truediv (of_int (acc_birds vals)) (of_nat pd)) (\<lambda>abd.
        ebind (truediv tw (of_nat pd)) (\<lambda>awd.
        Inr \<lparr>year = yr, week = wk, start = mn, end_date = mx, purchase_days = pd,
             birds = acc_birds vals,
             chicken_wt = py_round (acc_chicken_wt vals) 2,
             gizzard_wt = py_round (acc_gizzard_wt vals) 2,
             total_wt = tw,
             avg_birds_day = py_round abd 1,
             avg_wt_day = py_round awd 2\<rparr>)))))"

text \<open>The third loop: \<open>prev\<close> is \<open>result[i - 1]\<close>, absent for \<open>i = 0\<close>.\<close>

definition add_wow :: "week_stats option \<Rightarrow> week_stats \<Rightarrow> error + week_row" where
  "add_wow prev w =
     (case prev of
        None \<Rightarrow> Inr (week_stats.extend w \<lparr>birds_wow = None, wt_wow = None\<rparr>)
      | Some p \<Rightarrow>
          ebind (if avg_birds_day p \<noteq> 0
                 then ebind (pct_change (avg_birds_day w) (avg_birds_day p)) (\<lambda>x. Inr (Some x))
                 else Inr None) (\<lambda>bw.
          ebind (if avg_wt_day p \<noteq> 0
                 then ebind (pct_change (avg_wt_day w) (avg_wt_day p)) (\<lambda>x. Inr (Some x))
                 else Inr None) (\<lambda>ww.
          Inr (week_stats.extend w \<lparr>birds_wow = bw, wt_wow = ww\<rparr>))))"

fun wow_loop :: "week_stats option \<Rightarrow> week_stats list \<Rightarrow> error + week_row list" where
  "wow_loop prev [] = Inr []"
| "wow_loop prev (w # ws) =
     ebind (add_wow prev w) (\<lambda>r. ebind (wow_loop (Some w) ws) (\<lambda>rs. Inr (r # rs)))"

definition aggregate_weekly :: "int \<Rightarrow> string list list \<Rightarrow> error + week_row list" where
  "aggregate_weekly current_year data =
     ebind (efold (purchase_row current_year) [] data) (\<lambda>weeks.
     ebind (emap week_stats_of (sort_key fst weeks)) (\<lambda>result.
     wow_loop None result))"

section \<open>doc_price.py: \<open>aggregate_weekly_prices\<close>\<close>

text \<open>One entry of \<open>weeks[key]["prices"]\<close>, the value of \<open>weeks[key]\<close>, and one dictionary
  of \<open>result\<close>, before and after the week-over-week keys are added.\<close>

record day_price =
  dp_avg :: rat
  dp_min :: rat
  dp_max :: rat

record price_acc =
  pa_prices :: "day_price list"
  pa_dates :: "date list"

definition price_default :: price_acc where
  "price_default = \<lparr>pa_prices = [], pa_dates = []\<rparr>"

record price_stats =
  p_year :: int
  p_week :: int
  p_start :: date
  p_end :: date
  entries :: nat
  avg_price :: rat
  min_price :: rat
  max_price :: rat
  spread :: rat

record price_row = price_stats +
  wow_pct :: "rat option"
  wow_abs :: "rat option"

text \<open>The supplier prices of one row: \<open>safe_float\<close> of every cell after the first, those
  above zero kept.\<close>

definition day_prices_of :: "string list \<Rightarrow> error + rat list" where
  "day_prices_of row =
     ebind (emap (\<lambda>val. safe_float (PStr val)) (tl row)) (\<lambda>ps. Inr (filter (\<lambda>p. 0 < p) ps))"

definition price_add ::
  "date \<Rightarrow> rat list \<Rightarrow> ((int \<times> int) \<times> price_acc) list
     \<Rightarrow> error + ((int \<times> int) \<times> price_acc) list" where
  "price_add dt day_prices weeks =
     (let key = week_key dt;
          w1 = lookup_default price_default weeks key;
          weeks1 = store key (w1\<lparr>pa_dates := pa_dates w1 @ [dt]\<rparr>) weeks in
      ebind (mean day_prices) (\<lambda>a.
      ebind (py_min day_prices) (\<lambda>mn.
      ebind (py_max day_prices) (\<lambda>mx.
      let w2 = lookup_default price_default weeks1 key in
      Inr (store key
             (w2\<lparr>pa_prices := pa_prices w2 @ [\<lparr>dp_avg = a, dp_min = mn, dp_max = mx\<rparr>]\<rparr>)
             weeks1)))))"

definition price_row_step ::
  "int \<Rightarrow> ((int \<times> int) \<times> price_acc) list \<Rightarrow> string list
     \<Rightarrow> error + ((int \<times> int) \<times> price_acc) list" where
  "price_row_step current_year weeks row =
     ebind (index row 0) (\<lambda>c.
     ebind (parse_date (PStr c)) (\<lambda>r.
       case r of
         None \<Rightarrow> Inr weeks
       | Some dt \<Rightarrow>
           if dt_year dt \<noteq> current_year then Inr weeks
           else ebind (day_prices_of row) (\<lambda>day_prices.
                  if day_prices = [] then Inr weeks else price_add dt day_prices weeks)))"

definition price_stats_of :: "(int \<times> int) \<times> price_acc \<Rightarrow> error + price_stats" where
  "price_stats_of item =
     (case item of ((yr, wk), vals) \<Rightarrow>
        ebind (py_min (pa_dates vals)) (\<lambda>mn_date.
        ebind (py_max (pa_dates vals)) (\<lambda>mx_date.
        ebind (mean (map dp_avg (pa_prices vals))) (\<lambda>a.
        ebind (py_min (map dp_min (pa_prices vals))) (\<lambda>week_min.
        ebind (py_max (map dp_max (pa_prices vals))) (\<lambda>week_max.
        Inr \<lparr>p_year = yr, p_week = wk, p_start = mn_date, p_end = mx_date,
             entries = length (pa_prices vals),
             avg_price = py_round a 0,
             min_price = week_min,
             max_price = week_max,
             spread = py_round (week_max - week_min) 0\<rparr>))))))"

definition add_price_wow :: "price_stats option \<Rightarrow> price_stats \<Rightarrow> error + price_row" where
  "add_price_wow prev w =
     (case prev of
        None \<Rightarrow> Inr (price_stats.extend w \<lparr>wow_pct = None, wow_abs = None\<rparr>)
      | Some p \<Rightarrow>
          if avg_price p \<noteq> 0
          then ebind (pct_change (avg_price w) (avg_price p)) (\<lambda>pct.
               Inr (price_stats.extend w
                      \<lparr>wow_pct = Some pct,
                       wow_abs = Some (py_round (avg_price w - avg_price p) 0)\<rparr>))
          else Inr (price_stats.extend w \<lparr>wow_pct = None, wow_abs = None\<rparr>))"

fun price_wow_loop :: "price_stats option \<Rightarrow> price_stats list \<Rightarrow> error + price_row list" where
  "price_wow_loop prev [] = Inr []"
| "price_wow_loop prev (w # ws) =
     ebind (add_price_wow prev w) (\<lambda>r.
     ebind (price_wow_loop (Some w) ws) (\<lambda>rs. Inr (r # rs)))"

definition aggregate_weekly_prices :: "int \<Rightarrow> string list list \<Rightarrow> error + price_row list" where
  "aggregate_weekly_prices current_year data =
     ebind (efold (price_row_step current_year) [] data) (\<lambda>weeks.
     ebind (emap price_stats_of (sort_key fst weeks)) (\<lambda>result.
     price_wow_loop None result))"

section \<open>competitor_selling.py\<close>

definition PRODUCTS :: "string list" where
  "PRODUCTS = [''Whole Chicken'', ''Gizzard'']"

text \<open>\<open>[safe_float(p) for p in pieces if safe_float(p) > 0]\<close>, then
  \<open>round(sum(parts) / len(parts), 0) if parts else None\<close>.\<close>

definition positive_parts :: "string list \<Rightarrow> error + rat list" where
  "positive_parts pieces =
     ebind (emap (\<lambda>p. safe_float (PStr p)) pieces) (\<lambda>xs. Inr (filter (\<lambda>x. 0 < x) xs))"

definition rounded_mean :: "rat list \<Rightarrow> error + rat option" where
  "rounded_mean parts =
     (if parts \<noteq> [] then ebind (mean parts) (\<lambda>m. Inr (Some (py_round m 0))) else Inr None)"

text \<open>
  \<^verbatim>\<open>
  def parse_price(val):
      if not val or not val.strip():
          return None
      val = val.strip()
      if "/" in val:
          parts = [safe_float(p) for p in val.split("/") if safe_float(p) > 0]
          return round(sum(parts) / len(parts), 0) if parts else None
      p = safe_float(val)
      return p if p > 0 else None
  \<close>
\<close>

definition parse_price :: "string \<Rightarrow> error + rat option" where
  "parse_price val =
     (if val = [] \<or> strip val = [] then Inr None
      else
        let v = strip val in
        if contains ''/'' v
        then ebind (positive_parts (split ''/'' v)) rounded_mean
        else ebind (safe_float (PStr v)) (\<lambda>p. Inr (if 0 < p then Some p else None)))"

text \<open>A record of \<open>fetch_competitor_data\<close>; \<open>s_prices\<close> holds the entries stored under
  the product names, and \<open>r.get(product_name)\<close> reads them.\<close>

record sell_record =
  s_date :: date
  s_location :: string
  s_brand :: string
  s_prices :: "(string \<times> rat option) list"

definition get_price :: "sell_record \<Rightarrow> string \<Rightarrow> rat option" where
  "get_price r product_name =
     (case map_of (s_prices r) product_name of None \<Rightarrow> None | Some v \<Rightarrow> v)"

text \<open>The value of \<open>groups[key]\<close>: price lists by product for Pullus and for the
  competitors, and the set of competitor brands (kept without duplicates).\<close>

record group_acc =
  g_pullus :: "(string \<times> rat list) list"
  g_competitors :: "(string \<times> rat list) list"
  g_comp_brands :: "string list"

definition group_default :: group_acc where
  "group_default = \<lparr>g_pullus = [], g_competitors = [], g_comp_brands = []\<rparr>"

definition append_price :: "string \<Rightarrow> rat \<Rightarrow> (string \<times> rat list) list \<Rightarrow> (string \<times> rat list) list"
where
  "append_price product_name price d =
     store product_name (lookup_default [] d product_name @ [price]) d"

text \<open>The inner loop body for one record and one product.\<close>

definition group_product ::
  "sell_record \<Rightarrow> ((date \<times> string) \<times> group_acc) list \<Rightarrow> string
     \<Rightarrow> ((date \<times> string) \<times> group_acc) list" where
  "group_product r groups product_name =
     (let key = (s_date r, s_location r);
          is_pullus = (lower (s_brand r) = ''pullus'')
      in case get_price r product_name of
           None \<Rightarrow> groups
         | Some price \<Rightarrow>
             let g = lookup_default group_default groups key in
             if is_pullus
             then store key (g\<lparr>g_pullus := append_price product_name price (g_pullus g)\<rparr>) groups
             else store key
                    (g\<lparr>g_competitors := append_price product_name price (g_competitors g),
                       g_comp_brands := List.insert (s_brand r) (g_comp_brands g)\<rparr>) groups)"

definition group_record ::
  "((date \<times> string) \<times> group_acc) list \<Rightarrow> sell_record \<Rightarrow> ((date \<times> string) \<times> group_acc) list"
where
  "group_record groups r = foldl (group_product r) groups PRODUCTS"

text \<open>The three keys a product contributes to an output row.\<close>

record product_stats =
  ps_pullus :: "rat option"
  ps_comp_avg :: "rat option"
  ps_diff_pct :: "rat option"

record agg_row =
  r_date :: date
  r_location :: string
  r_comp_brands :: nat
  r_products :: "(string \<times> product_stats) list"

definition product_stats_of :: "group_acc \<Rightarrow> string \<Rightarrow> error + (string \<times> product_stats)" where
  "product_stats_of vals product_name =
     ebind (rounded_mean (lookup_default [] (g_pullus vals) product_name)) (\<lambda>pullus_price.
     ebind (rounded_mean (lookup_default [] (g_competitors vals) product_name)) (\<lambda>comp_avg.
     ebind (case (pullus_price, comp_avg) of
              (Some pp, Some ca) \<Rightarrow>
                if pp \<noteq> 0 \<and> ca \<noteq> 0 \<and> 0 < ca
                then ebind (pct_change pp ca) (\<lambda>d. Inr (Some d)) else Inr None
            | _ \<Rightarrow> Inr None) (\<lambda>diff.
     Inr (product_name,
          \<lparr>ps_pullus = pullus_price, ps_comp_avg = comp_avg, ps_diff_pct = diff\<rparr>))))"

definition agg_row_of :: "(date \<times> string) \<times> group_acc \<Rightarrow> error + agg_row" where
  "agg_row_of item =
     (case item of ((dt, loc), vals) \<Rightarrow>
        ebind (emap (product_stats_of vals) PRODUCTS) (\<lambda>ps.
        Inr \<lparr>r_date = dt, r_location = loc, r_comp_brands = length (g_comp_brands vals),
             r_products = ps\<rparr>))"

definition aggregate_by_date_location :: "sell_record list \<Rightarrow> error + agg_row list" where
  "aggregate_by_date_location records =
     emap agg_row_of (sort_key fst (foldl group_record [] records))"

section \<open>competitor_buying.py\<close>

text \<open>
  \<^verbatim>\<open>
  def parse_buying_price(val):
      if not val or not val.strip():
          return None
      val = val.strip().replace(",", "")
      if " - " in val:
          parts = [safe_float(p) for p in val.split(" - ") if safe_float(p) > 0]
          return round(sum(parts) / len(parts), 0) if parts else None
      p = safe_float(val)
      return p if p > 0 else None
  \<close>
\<close>

definition parse_buying_price :: "string \<Rightarrow> error + rat option" where
  "parse_buying_price val =
     (if val = [] \<or> strip val = [] then Inr None
      else
        let v = remove_commas (strip val) in
        if contains '' - '' v
        then ebind (positive_parts (split '' - '' v)) rounded_mean
        else ebind (safe_float (PStr v)) (\<lambda>p. Inr (if 0 < p then Some p else None)))"

record buy_record =
  b_date :: date
  b_state :: string
  competitor :: string
  product_type :: string
  comp_price :: "rat option"
  pullus_price :: "rat option"
  b_notes :: string

text \<open>The header row is the first row with a cell that contains \<open>Entry ID\<close>.\<close>

fun find_header :: "nat \<Rightarrow> string list list \<Rightarrow> nat option" where
  "find_header i [] = None"
| "find_header i (row # rows) =
     (if list_ex (contains ''Entry ID'') row then Some i else find_header (Suc i) rows)"

text \<open>\<open>col_map = {h.strip(): i for i, h in enumerate(header)}\<close> and
  \<open>col_map.get(name, dflt)\<close>: of two columns with the same name the later one stays.\<close>

definition col_map_of :: "string list \<Rightarrow> (string \<times> nat) list" where
  "col_map_of header = rev (zip (map strip header) [0 ..< length header])"

definition col_get :: "(string \<times> nat) list \<Rightarrow> string \<Rightarrow> nat \<Rightarrow> nat" where
  "col_get col_map name dflt = (case map_of col_map name of None \<Rightarrow> dflt | Some i \<Rightarrow> i)"

text \<open>The loop body of \<open>fetch_buying_data\<close>: \<open>None\<close> stands for \<open>continue\<close>.\<close>

definition buying_row ::
  "int \<Rightarrow> (string \<times> nat) list \<Rightarrow> string list \<Rightarrow> error + buy_record option" where
  "buying_row current_year col_map row =
     ebind (index row (col_get col_map ''Date'' 1)) (\<lambda>c.
     ebind (parse_date (PStr c)) (\<lambda>r.
       case r of
         None \<Rightarrow> Inr None
       | Some dt \<Rightarrow>
           if dt_year dt \<noteq> current_year then Inr None
           else
             ebind (index row (col_get col_map ''Competitor Name'' 5)) (\<lambda>cn.
             ebind (index row (col_get col_map ''Product Type'' 6)) (\<lambda>pt.
             ebind (index row (col_get col_map ''Competitor Price (N)'' 7)) (\<lambda>cp.
             ebind (parse_buying_price cp) (\<lambda>comp.
             ebind (index row (col_get col_map ''Pullus Price (N)'' 8)) (\<lambda>pp.
             ebind (parse_buying_price pp) (\<lambda>pul.
             ebind (if col_get col_map ''Notes'' 9 < length row
                    then ebind (index row (col_get col_map ''Notes'' 9)) (\<lambda>n. Inr (strip n))
                    else Inr []) (\<lambda>nts.
             ebind (index row (col_get col_map ''State'' 4)) (\<lambda>st.
             if strip cn = [] then Inr None
             else Inr (Some \<lparr>b_date = dt, b_state = strip st, competitor = strip cn,
                              product_type = title (strip pt), comp_price = comp,
                              pullus_price = pul, b_notes = nts\<rparr>)))))))))))"

fun buying_loop :: "int \<Rightarrow> (string \<times> nat) list \<Rightarrow> string list list \<Rightarrow> error + buy_record list"
where
  "buying_loop current_year col_map [] = Inr []"
| "buying_loop current_year col_map (row # rows) =
     ebind (buying_row current_year col_map row) (\<lambda>r.
     ebind (buying_loop current_year col_map rows) (\<lambda>rs.
     Inr (case r of None \<Rightarrow> rs | Some x \<Rightarrow> x # rs)))"

text \<open>\<open>rows\<close> is what \<open>ws.get_all_values()\<close> returned.\<close>

definition fetch_buying_data :: "int \<Rightarrow> string list list \<Rightarrow> error + buy_record list" where
  "fetch_buying_data current_year rows =
     (case find_header 0 rows of
        None \<Rightarrow> Inr []
      | Some header_idx \<Rightarrow>
          buying_loop current_year (col_map_of (rows ! header_idx))
            (drop (Suc header_idx) rows))"

text \<open>
  \<open>compute_summary\<close>. A price counts when it is truthy: present and not zero. The
  dictionary it returns can hold any Python value under a key; the numeric keys are
  typed \<open>rat option\<close>, \<open>None\<close> being Python's \<open>None\<close>.
\<close>

record summary =
  avg_pullus :: "rat option"
  avg_comp :: "rat option"
  diff_pct :: "rat option"
  diff_abs :: "rat option"
  total_entries :: nat
  dressed_entries :: nat
  live_entries :: nat
  live_comp_prices :: "rat list"

definition truthy_prices :: "(buy_record \<Rightarrow> rat option) \<Rightarrow> buy_record list \<Rightarrow> rat list" where
  "truthy_prices field rs =
     concat (map (\<lambda>r. case field r of None \<Rightarrow> [] | Some p \<Rightarrow> if p \<noteq> 0 then [p] else []) rs)"

text \<open>\<open>round(sum(ps) / len(ps), 0) if ps else 0\<close>.\<close>

definition rounded_mean_or_zero :: "rat list \<Rightarrow> error + rat" where
  "rounded_mean_or_zero ps =
     (if ps \<noteq> [] then ebind (mean ps) (\<lambda>m. Inr (py_round m 0)) else Inr 0)"

definition compute_summary :: "buy_record list \<Rightarrow> error + summary" where
  "compute_summary records =
     (let dressed = filter (\<lambda>r. product_type r = ''Dressed Birds'') records;
          live = filter (\<lambda>r. product_type r = ''Live Birds'') records;
          pullus_prices = truthy_prices pullus_price dressed;
          comp_prices = truthy_prices comp_price dressed
      in
      ebind (rounded_mean_or_zero pullus_prices) (\<lambda>ap.
      ebind (rounded_mean_or_zero comp_prices) (\<lambda>ac.
      ebind (if ac \<noteq> 0 then pct_change ap ac else Inr 0) (\<lambda>dp.
      Inr \<lparr>avg_pullus = Some ap, avg_comp = Some ac, diff_pct = Some dp,
           diff_abs = Some (py_round (ap - ac) 0),
           total_entries = length records,
           dressed_entries = length dressed,
           live_entries = length live,
           live_comp_prices = truthy_prices comp_price live\<rparr>))))"

section \<open>Predicates on the dictionaries of buckets\<close>

text \<open>Every key occurs once and every value satisfies \<open>P\<close>.\<close>

definition entries_ok :: "('v \<Rightarrow> bool) \<Rightarrow> ('k \<times> 'v) list \<Rightarrow> bool" where
  "entries_ok P m \<longleftrightarrow> distinct (map fst m) \<and> (\<forall>(k, v)\<in>set m. P v)"

text \<open>A list of dates is not empty and all its dates satisfy \<open>Q\<close>.\<close>

definition dates_ok :: "(date \<Rightarrow> bool) \<Rightarrow> date list \<Rightarrow> bool" where
  "dates_ok Q ds \<longleftrightarrow> ds \<noteq> [] \<and> (\<forall>d\<in>set ds. Q d)"


text \<open>The week-over-week percentage as the specification words it: absent without a
  previous bucket or when the previous value is zero, otherwise
  \<open>(current - previous) / previous * 100\<close>, here rounded to one decimal.\<close>

definition wow_expected :: "rat option \<Rightarrow> rat \<Rightarrow> rat option" where
  "wow_expected prev cur =
     (case prev of None \<Rightarrow> None
      | Some p \<Rightarrow> if p = 0 then None else Some (py_round ((cur - p) / p * 100) 1))"

text \<open>A date that the read of the date cell of some row of \<open>data\<close> parsed to, and that
  lies in the current year.\<close>

definition admitted_date ::
  "int \<Rightarrow> (string list \<Rightarrow> error + string) \<Rightarrow> string list list \<Rightarrow> date \<Rightarrow> bool" where
  "admitted_date current_year cell data d \<longleftrightarrow>
     dt_year d = current_year \<and>
     (\<exists>row\<in>set data. \<exists>c. cell row = Inr c \<and> parse_date (PStr c) = Inr (Some d))"

text \<open>The absolute week-over-week change of the average price, present exactly when the
  percentage is.\<close>

definition abs_expected :: "rat option \<Rightarrow> rat \<Rightarrow> rat option" where
  "abs_expected prev cur =
     (case prev of None \<Rightarrow> None | Some p \<Rightarrow> if p = 0 then None else Some (cur - p))"

section \<open>What the competitor aggregates are expected to hold\<close>

text \<open>The prices a record contributes to a bucket for a product, on the own (Pullus) side and
  on the competitor side: its price for the product when that is present and the record
  has the bucket's date and location.\<close>

definition own_contrib :: "sell_record \<Rightarrow> date \<times> string \<Rightarrow> string \<Rightarrow> rat list" where
  "own_contrib r key p =
     (if (s_date r, s_location r) = key \<and> lower (s_brand r) = ''pullus''
      then (case get_price r p of Some x \<Rightarrow> [x] | None \<Rightarrow> []) else [])"

definition comp_contrib :: "sell_record \<Rightarrow> date \<times> string \<Rightarrow> string \<Rightarrow> rat list" where
  "comp_contrib r key p =
     (if (s_date r, s_location r) = key \<and> lower (s_brand r) \<noteq> ''pullus''
      then (case get_price r p of Some x \<Rightarrow> [x] | None \<Rightarrow> []) else [])"

definition own_prices :: "sell_record list \<Rightarrow> date \<times> string \<Rightarrow> string \<Rightarrow> rat list" where
  "own_prices records key p = concat (map (\<lambda>r. own_contrib r key p) records)"

definition competitor_prices :: "sell_record list \<Rightarrow> date \<times> string \<Rightarrow> string \<Rightarrow> rat list" where
  "competitor_prices records key p = concat (map (\<lambda>r. comp_contrib r key p) records)"

text \<open>The arithmetic mean rounded to 0 decimals, absent for no values; and the same with
  zero for no values.\<close>

definition mean_or_absent :: "rat list \<Rightarrow> rat option" where
  "mean_or_absent xs =
     (if xs = [] then None else Some (py_round (sum_list xs / of_nat (length xs)) 0))"

definition mean_or_zero :: "rat list \<Rightarrow> rat" where
  "mean_or_zero xs = (if xs = [] then 0 else py_round (sum_list xs / of_nat (length xs)) 0)"

text \<open>The percentage differential of \<open>aggregate_by_date_location\<close>: absent unless the own
  mean is present and not zero and the competitor mean is present and above zero.\<close>

definition diff_expected :: "rat option \<Rightarrow> rat option \<Rightarrow> rat option" where
  "diff_expected own_mean comp_mean =
     (case (own_mean, comp_mean) of
        (Some a, Some c) \<Rightarrow>
          if a \<noteq> 0 \<and> 0 < c then Some (py_round ((a - c) / c * 100) 1) else None
      | _ \<Rightarrow> None)"

text \<open>The price lists of a bucket and a product in the dictionary of groups.\<close>

definition pullus_list ::
  "((date \<times> string) \<times> group_acc) list \<Rightarrow> date \<times> string \<Rightarrow> string \<Rightarrow> rat list" where
  "pullus_list groups key p =
     lookup_default [] (g_pullus (lookup_default group_default groups key)) p"

definition comp_list ::
  "((date \<times> string) \<times> group_acc) list \<Rightarrow> date \<times> string \<Rightarrow> string \<Rightarrow> rat list" where
  "comp_list groups key p =
     lookup_default [] (g_competitors (lookup_default group_default groups key)) p"

section \<open>Properties\<close>

subsection \<open>Evaluation rules for the error monad\<close>

lemma ebind_Inr: "ebind (Inr x) f = f x"
  by (simp add: ebind_def)

lemma ebind_Inl: "ebind (Inl e) f = Inl e"
  by (simp add: ebind_def)

lemma ebind_eq_Inr: "ebind r f = Inr y \<longleftrightarrow> (\<exists>x. r = Inr x \<and> f x = Inr y)"
  by (cases r) (simp_all add: ebind_def)

lemma ebind_eq_Inl: "ebind r f = Inl e \<longleftrightarrow> r = Inl e \<or> (\<exists>x. r = Inr x \<and> f x = Inl e)"
  by (cases r) (simp_all add: ebind_def)

subsection \<open>Weekly purchase scenario\<close>

text \<open>
  C6. Two purchase rows dated 2025-01-06 (100 birds, 50.0 kg chicken, 10.0 kg gizzard) and
  2025-01-08 (200 birds, 90.0 kg, 15.0 kg), with 2025 the current year, give exactly one
  bucket, ISO week 2 of 2025, with birds 300, chicken weight 140, gizzard weight 25, two
  purchase days and 150 birds per day. The purchase days are distinct calendar dates: when
  the first day's purchase is entered as two rows, the bucket is the same, with two
  purchase days for three rows.
\<close>

theorem aggregate_weekly_scenario:
  "aggregate_weekly 2025
     [[''2025-01-06'', '''', '''', '''', '''', ''100'', '''', '''', ''50.0'', ''10.0''],
      [''2025-01-08'', '''', '''', '''', '''', ''200'', '''', '''', ''90.0'', ''15.0'']]
   = Inr [\<lparr>year = 2025, week = 2, start = (2025, 1, 6), end_date = (2025, 1, 8),
           purchase_days = 2, birds = 300, chicken_wt = 140, gizzard_wt = 25,
           total_wt = 165, avg_birds_day = 150, avg_wt_day = 165 / 2,
           birds_wow = None, wt_wow = None\<rparr>]
   \<and> aggregate_weekly 2025
     [[''2025-01-06'', '''', '''', '''', '''', ''60'', '''', '''', ''30.0'', ''10.0''],
      [''2025-01-06'', '''', '''', '''', '''', ''40'', '''', '''', ''20.0'', ''0''],
      [''2025-01-08'', '''', '''', '''', '''', ''200'', '''', '''', ''90.0'', ''15.0'']]
   = Inr [\<lparr>year = 2025, week = 2, start = (2025, 1, 6), end_date = (2025, 1, 8),
           purchase_days = 2, birds = 300, chicken_wt = 140, gizzard_wt = 25,
           total_wt = 165, avg_birds_day = 150, avg_wt_day = 165 / 2,
           birds_wow = None, wt_wow = None\<rparr>]"
  by code_simp

subsection \<open>The parsers raise nothing the callers do not catch\<close>

lemma py_float_error: "py_float s = Inl e \<Longrightarrow> e = ValueError"
  by (auto simp: py_float_def Let_def split: if_splits prod.splits option.splits list.splits)

lemma safe_float_total: "\<exists>x. safe_float val = Inr x"
proof (cases "py_float (strip (remove_commas (py_str val)))")
  case (Inl e)
  then have "e = ValueError" by (rule py_float_error)
  with Inl show ?thesis by (simp add: safe_float_def)
next
  case (Inr x)
  then show ?thesis by (simp add: safe_float_def)
qed

lemma strptime_error: "strptime s fmt = Inl e \<Longrightarrow> e = ValueError"
  by (auto simp: strptime_def split: option.splits list.splits if_splits prod.splits)

lemma attempt_error:
  "ebind (py_strip val) (\<lambda>s. strptime s fmt) = Inl e \<Longrightarrow> e = ValueError \<or> e = AttributeError"
  by (auto simp: ebind_def py_strip_def split: pyval.splits dest: strptime_error)

lemma parse_date_loop_total: "\<exists>r. parse_date_loop fmts val = Inr r"
proof (induction fmts)
  case Nil
  show ?case by simp
next
  case (Cons fmt fmts)
  show ?case
  proof (cases "ebind (py_strip val) (\<lambda>s. strptime s fmt)")
    case (Inl e)
    then have "e = ValueError \<or> e = AttributeError" by (rule attempt_error)
    with Inl Cons.IH show ?thesis by auto
  next
    case (Inr dt)
    then show ?thesis by simp
  qed
qed

lemma parse_date_total: "\<exists>r. parse_date val = Inr r"
  by (simp add: parse_date_def parse_date_loop_total)

subsection \<open>A sheet without the header marker\<close>

lemma find_header_None:
  "find_header i rows = None \<longleftrightarrow> (\<forall>row\<in>set rows. \<forall>cell\<in>set row. \<not> contains ''Entry ID'' cell)"
  by (induction rows arbitrary: i) (auto simp: list_ex_iff)

text \<open>
  C10. If no cell of any row of the competitor-buying sheet contains the text
  \<open>Entry ID\<close>, then \<open>fetch_buying_data\<close> returns the empty list of records: it raises
  nothing and reads no row under a header it guessed.
\<close>

theorem fetch_buying_data_no_header:
  "\<forall>row\<in>set rows. \<forall>cell\<in>set row. \<not> contains ''Entry ID'' cell
     \<Longrightarrow> fetch_buying_data current_year rows = Inr []"
proof -
  assume "\<forall>row\<in>set rows. \<forall>cell\<in>set row. \<not> contains ''Entry ID'' cell"
  then have "find_header 0 rows = None"
    by (simp only: find_header_None)
  then show ?thesis
    by (simp add: fetch_buying_data_def)
qed

theorem fetch_buying_data_no_header_witness:
  "fetch_buying_data 2025
     [[''Competitor prices''],
      [''1'', ''2025-01-06'', '''', '''', ''Kano'', ''Acme'', ''Dressed Birds'', ''3400'', ''4000'',
       ''Entry Id'']]
   = Inr []"
  by (rule fetch_buying_data_no_header) (simp add: Ball_def)

subsection \<open>Malformed cells\<close>



lemma emap_total:
  "\<forall>x. \<exists>y. f x = Inr y \<Longrightarrow> emap f xs = Inr (map (\<lambda>x. projr (f x)) xs)"
proof (induction xs)
  case Nil
  show ?case by simp
next
  case (Cons x xs)
  then obtain y where "f x = Inr y" by blast
  with Cons show ?case by (simp add: ebind_Inr)
qed

lemma day_prices_of_eq:
  "day_prices_of row = Inr (filter (\<lambda>p. 0 < p) (map (\<lambda>c. projr (safe_float (PStr c))) (tl row)))"
  by (simp add: day_prices_of_def emap_total safe_float_total ebind_Inr)



subsection \<open>Dictionaries of buckets and the first loop of \<open>aggregate_weekly\<close>\<close>

lemma map_of_store: "map_of (store k v m) = (map_of m)(k \<mapsto> v)"
  by (induction m) (auto simp: fun_eq_iff)

lemma keys_store: "fst ` set (store k v m) = insert k (fst ` set m)"
  by (simp add: dom_map_of_conv_image_fst [symmetric] map_of_store)

lemma distinct_store: "distinct (map fst m) \<Longrightarrow> distinct (map fst (store k v m))"
  by (induction m) (auto simp: keys_store)

lemma store_store: "store k v (store k v' m) = store k v m"
  by (induction m) auto

lemma lookup_store: "lookup_default d (store k v m) k = v"
  by (simp add: lookup_default_def map_of_store)

lemma bump_bump: "bump key f (bump key g weeks) = bump key (\<lambda>w. f (g w)) weeks"
  by (simp add: bump_def lookup_store store_store)

lemma entries_ok_Nil: "entries_ok P []"
  by (simp add: entries_ok_def)

lemma entries_ok_store:
  assumes "entries_ok P m" and "P v"
  shows "entries_ok P (store k v m)"
proof -
  have d: "distinct (map fst (store k v m))"
    using assms(1) by (simp add: entries_ok_def distinct_store)
  have "P v'" if mem: "(k', v') \<in> set (store k v m)" for k' v'
  proof (cases "k' = k")
    case True
    from d mem have "map_of (store k v m) k' = Some v'" by (rule map_of_is_SomeI)
    with True have "v' = v" by (simp add: map_of_store)
    with assms(2) show ?thesis by simp
  next
    case False
    from d mem have "map_of (store k v m) k' = Some v'" by (rule map_of_is_SomeI)
    with False have "map_of m k' = Some v'" by (simp add: map_of_store)
    then have "(k', v') \<in> set m" by (rule map_of_SomeD)
    with assms(1) show ?thesis unfolding entries_ok_def by blast
  qed
  with d show ?thesis unfolding entries_ok_def by blast
qed

lemma entries_ok_lookup:
  "entries_ok P m \<Longrightarrow> lookup_default d m k = d \<or> P (lookup_default d m k)"
  by (auto simp: lookup_default_def entries_ok_def split: option.splits dest: map_of_SomeD)

lemma efold_invariant:
  assumes "efold f st xs = Inr st'" and "I st"
    and "\<And>s x s'. I s \<Longrightarrow> x \<in> set xs \<Longrightarrow> f s x = Inr s' \<Longrightarrow> I s'"
  shows "I st'"
  using assms
proof (induction xs arbitrary: st)
  case Nil
  then show ?case by simp
next
  case (Cons x xs)
  from Cons.prems(1) obtain s1 where s1: "f st x = Inr s1" and rest: "efold f s1 xs = Inr st'"
    by (auto simp: ebind_eq_Inr)
  have "I s1"
    by (rule Cons.prems(3) [OF Cons.prems(2) _ s1]) simp
  moreover have "I s'" if "I s" "y \<in> set xs" "f s y = Inr s'" for s y s'
    by (rule Cons.prems(3) [OF that(1) _ that(3)]) (simp add: that(2))
  ultimately show ?case
    using rest by (rule Cons.IH [rotated])
qed


lemma emap_error: "emap f xs = Inl e \<Longrightarrow> \<exists>x\<in>set xs. f x = Inl e"
  by (induction xs) (auto simp: ebind_eq_Inl)

lemma emap_Inr: "emap f xs = Inr ys \<Longrightarrow> list_all2 (\<lambda>x y. f x = Inr y) xs ys"
  by (induction xs arbitrary: ys) (auto simp: ebind_eq_Inr)

lemma fold_min_in: "fold min ys (y::'a::linorder) \<in> set (y # ys)"
  by (induction ys arbitrary: y) (auto simp: min_def)

lemma fold_max_in: "fold max ys (y::'a::linorder) \<in> set (y # ys)"
  by (induction ys arbitrary: y) (auto simp: max_def)

lemma py_min_Inr: "xs \<noteq> [] \<Longrightarrow> \<exists>m. py_min xs = Inr m \<and> m \<in> set xs"
  using fold_min_in by (cases xs) (auto simp: py_min_def)

lemma py_max_Inr: "xs \<noteq> [] \<Longrightarrow> \<exists>m. py_max xs = Inr m \<and> m \<in> set xs"
  using fold_max_in by (cases xs) (auto simp: py_max_def)

lemma mean_Inr: "xs \<noteq> [] \<Longrightarrow> mean xs = Inr (sum_list xs / of_nat (length xs))"
  by (simp add: mean_def truediv_def)


lemma bump_entries_ok:
  assumes "entries_ok P weeks" and "P (f week_default)" and "\<And>w. P w \<Longrightarrow> P (f w)"
  shows "entries_ok P (bump key f weeks)"
proof -
  from assms(1) have "lookup_default week_default weeks key = week_default
      \<or> P (lookup_default week_default weeks key)"
    by (rule entries_ok_lookup)
  with assms(2,3) have "P (f (lookup_default week_default weeks key))" by auto
  with assms(1) show ?thesis unfolding bump_def by (rule entries_ok_store)
qed



lemma parse_date_not_Inl: "parse_date v \<noteq> Inl e"
  using parse_date_total [of v] by auto




lemma purchase_add_Inr:
  assumes "purchase_add dt weeks row = Inr weeks'"
  shows "\<exists>n x y. weeks' = bump (week_key dt)
           (\<lambda>w. w\<lparr>acc_birds := acc_birds w + n, acc_chicken_wt := acc_chicken_wt w + x,
                    acc_gizzard_wt := acc_gizzard_wt w + y, acc_dates := acc_dates w @ [dt]\<rparr>) weeks"
  using assms by (auto simp: purchase_add_def Let_def ebind_eq_Inr bump_bump)

lemma purchase_row_cases:
  obtains (raised) e where "index row COL_DATE = Inl e" "purchase_row cy weeks row = Inl e"
  | (skipped) c where "index row COL_DATE = Inr c" "parse_date (PStr c) = Inr None"
      "purchase_row cy weeks row = Inr weeks"
  | (off_year) c dt where "index row COL_DATE = Inr c" "parse_date (PStr c) = Inr (Some dt)"
      "dt_year dt \<noteq> cy" "purchase_row cy weeks row = Inr weeks"
  | (admitted) c dt where "index row COL_DATE = Inr c" "parse_date (PStr c) = Inr (Some dt)"
      "dt_year dt = cy" "purchase_row cy weeks row = purchase_add dt weeks row"
proof (cases "index row COL_DATE")
  case (Inl e)
  then show ?thesis by (intro raised [of e]) (simp_all add: purchase_row_def ebind_Inl)
next
  case (Inr c)
  obtain r where r: "parse_date (PStr c) = Inr r" using parse_date_total by blast
  show ?thesis
  proof (cases r)
    case None
    with Inr r show ?thesis by (intro skipped [of c]) (simp_all add: purchase_row_def ebind_Inr)
  next
    case (Some dt)
    show ?thesis
    proof (cases "dt_year dt = cy")
      case True
      with Inr r Some show ?thesis
        by (intro admitted [of c dt]) (simp_all add: purchase_row_def ebind_Inr)
    next
      case False
      with Inr r Some show ?thesis
        by (intro off_year [of c dt]) (simp_all add: purchase_row_def ebind_Inr)
    qed
  qed
qed


lemma purchase_row_Inr:
  assumes "purchase_row cy weeks row = Inr weeks'"
  shows "weeks' = weeks \<or>
     (\<exists>c dt. index row COL_DATE = Inr c \<and> parse_date (PStr c) = Inr (Some dt) \<and> dt_year dt = cy
        \<and> purchase_add dt weeks row = Inr weeks')"
  using assms by (cases rule: purchase_row_cases [of row cy weeks]) auto

lemma purchase_row_invariant:
  assumes "entries_ok (\<lambda>v. dates_ok Q (acc_dates v)) weeks"
    and "purchase_row cy weeks row = Inr weeks'"
    and "\<And>c dt. index row COL_DATE = Inr c \<Longrightarrow> parse_date (PStr c) = Inr (Some dt)
           \<Longrightarrow> dt_year dt = cy \<Longrightarrow> Q dt"
  shows "entries_ok (\<lambda>v. dates_ok Q (acc_dates v)) weeks'"
proof -
  from purchase_row_Inr [OF assms(2)] show ?thesis
  proof
    assume "weeks' = weeks"
    with assms(1) show ?thesis by simp
  next
    assume "\<exists>c dt. index row COL_DATE = Inr c \<and> parse_date (PStr c) = Inr (Some dt)
      \<and> dt_year dt = cy \<and> purchase_add dt weeks row = Inr weeks'"
    then obtain c dt where c: "index row COL_DATE = Inr c" "parse_date (PStr c) = Inr (Some dt)"
      "dt_year dt = cy" and add: "purchase_add dt weeks row = Inr weeks'"
      by blast
    from c have "Q dt" by (rule assms(3))
    from purchase_add_Inr [OF add] obtain n x y where
      w: "weeks' = bump (week_key dt)
           (\<lambda>w. w\<lparr>acc_birds := acc_birds w + n, acc_chicken_wt := acc_chicken_wt w + x,
                    acc_gizzard_wt := acc_gizzard_wt w + y, acc_dates := acc_dates w @ [dt]\<rparr>) weeks"
      by blast
    show ?thesis
      unfolding w using assms(1)
      by (rule bump_entries_ok) (simp_all add: dates_ok_def week_default_def \<open>Q dt\<close>)
  qed
qed

subsection \<open>The second and third loop of \<open>aggregate_weekly\<close>\<close>

lemma emap_all_Inr:
  assumes "\<And>x. x \<in> set xs \<Longrightarrow> \<exists>y. f x = Inr y \<and> R x y"
  shows "\<exists>ys. emap f xs = Inr ys \<and> list_all2 R xs ys"
  using assms
proof (induction xs)
  case Nil
  show ?case by simp
next
  case (Cons x xs)
  then obtain y where y: "f x = Inr y" "R x y" by fastforce
  from Cons obtain ys where ys: "emap f xs = Inr ys" "list_all2 R xs ys" by fastforce
  from y ys show ?case by (simp add: ebind_Inr)
qed

lemma pct_change_Inr:
  "prev \<noteq> 0 \<Longrightarrow> pct_change cur prev = Inr (py_round ((cur - prev) / prev * 100) 1)"
  by (simp add: pct_change_def truediv_def ebind_Inr)

lemma week_stats_of_Inr:
  assumes "dates_ok Q (acc_dates vals)"
  shows "\<exists>w. week_stats_of ((yr, wk), vals) = Inr w \<and> year w = yr \<and> week w = wk
     \<and> Q (start w) \<and> Q (end_date w) \<and> 1 \<le> purchase_days w
     \<and> purchase_days w = length (remdups (acc_dates vals))"
proof -
  from assms have ne: "acc_dates vals \<noteq> []" and all: "\<forall>d\<in>set (acc_dates vals). Q d"
    by (simp_all add: dates_ok_def)
  from py_min_Inr [OF ne] obtain mn where mn: "py_min (acc_dates vals) = Inr mn"
    "mn \<in> set (acc_dates vals)" by blast
  from py_max_Inr [OF ne] obtain mx where mx: "py_max (acc_dates vals) = Inr mx"
    "mx \<in> set (acc_dates vals)" by blast
  from ne have pd: "0 < length (remdups (acc_dates vals))"
    by (simp add: length_remdups_card_conv card_gt_0_iff)
  from ne have nz: "(of_nat (length (remdups (acc_dates vals))) :: rat) \<noteq> 0" by simp
  show ?thesis
    using mn mx all pd nz
    by (simp add: week_stats_of_def ebind_Inr Let_def truediv_def Suc_le_eq)
qed

lemma add_wow_Inr:
  "\<exists>r. add_wow prev w = Inr r \<and> week_stats.truncate r = w
     \<and> birds_wow r = wow_expected (map_option avg_birds_day prev) (avg_birds_day w)
     \<and> wt_wow r = wow_expected (map_option avg_wt_day prev) (avg_wt_day w)"
  by (cases prev)
     (simp_all add: add_wow_def wow_expected_def pct_change_Inr ebind_Inr week_stats.defs)

lemma wow_loop_Inr:
  "\<exists>rs. wow_loop prev ws = Inr rs \<and> length rs = length ws
     \<and> (\<forall>i<length ws. week_stats.truncate (rs ! i) = ws ! i
          \<and> birds_wow (rs ! i) =
              wow_expected (if i = 0 then map_option avg_birds_day prev
                            else Some (avg_birds_day (ws ! (i - 1)))) (avg_birds_day (ws ! i))
          \<and> wt_wow (rs ! i) =
              wow_expected (if i = 0 then map_option avg_wt_day prev
                            else Some (avg_wt_day (ws ! (i - 1)))) (avg_wt_day (ws ! i)))"
proof (induction ws arbitrary: prev)
  case Nil
  show ?case by simp
next
  case (Cons w ws)
  from add_wow_Inr [of prev w] obtain r where r: "add_wow prev w = Inr r"
    "week_stats.truncate r = w"
    "birds_wow r = wow_expected (map_option avg_birds_day prev) (avg_birds_day w)"
    "wt_wow r = wow_expected (map_option avg_wt_day prev) (avg_wt_day w)"
    by blast
  from Cons.IH [of "Some w"] obtain rs where rs: "wow_loop (Some w) ws = Inr rs"
    "length rs = length ws"
    "\<forall>i<length ws. week_stats.truncate (rs ! i) = ws ! i
          \<and> birds_wow (rs ! i) =
              wow_expected (if i = 0 then map_option avg_birds_day (Some w)
                            else Some (avg_birds_day (ws ! (i - 1)))) (avg_birds_day (ws ! i))
          \<and> wt_wow (rs ! i) =
              wow_expected (if i = 0 then map_option avg_wt_day (Some w)
                            else Some (avg_wt_day (ws ! (i - 1)))) (avg_wt_day (ws ! i))"
    by blast
  have "wow_loop prev (w # ws) = Inr (r # rs)"
    using r(1) rs(1) by (simp add: ebind_Inr)
  moreover have "length (r # rs) = length (w # ws)" using rs(2) by simp
  moreover have "week_stats.truncate ((r # rs) ! i) = (w # ws) ! i
          \<and> birds_wow ((r # rs) ! i) =
              wow_expected (if i = 0 then map_option avg_birds_day prev
                            else Some (avg_birds_day ((w # ws) ! (i - 1)))) (avg_birds_day ((w # ws) ! i))
          \<and> wt_wow ((r # rs) ! i) =
              wow_expected (if i = 0 then map_option avg_wt_day prev
                            else Some (avg_wt_day ((w # ws) ! (i - 1)))) (avg_wt_day ((w # ws) ! i))"
    if "i < length (w # ws)" for i
  proof (cases i)
    case 0
    with r show ?thesis by simp
  next
    case (Suc j)
    with that have "j < length ws" by simp
    with rs(3) Suc show ?thesis by (cases j) simp_all
  qed
  ultimately show ?case by blast
qed

lemma purchase_fold_invariant:
  assumes "efold (purchase_row cy) [] data = Inr weeks"
  shows "entries_ok (\<lambda>v. dates_ok (admitted_date cy (\<lambda>row. index row COL_DATE) data) (acc_dates v)) weeks"
  using assms
proof (rule efold_invariant)
  show "entries_ok (\<lambda>v. dates_ok (admitted_date cy (\<lambda>row. index row COL_DATE) data) (acc_dates v)) []"
    by (rule entries_ok_Nil)
next
  fix s row s'
  assume inv: "entries_ok (\<lambda>v. dates_ok (admitted_date cy (\<lambda>row. index row COL_DATE) data) (acc_dates v)) s"
    and row: "row \<in> set data" and step: "purchase_row cy s row = Inr s'"
  from inv step
  show "entries_ok (\<lambda>v. dates_ok (admitted_date cy (\<lambda>row. index row COL_DATE) data) (acc_dates v)) s'"
    by (rule purchase_row_invariant) (use row in \<open>auto simp: admitted_date_def\<close>)
qed

lemma sorted_keys:
  assumes "distinct (map fst m)"
  shows "sorted_wrt (<) (map fst (sort_key fst (m :: ('k::linorder \<times> 'v) list)))"
proof -
  have "sorted (map fst (sort_key fst m))" by (rule sorted_sort_key)
  moreover have "distinct (map fst (sort_key fst m))"
    using assms by (simp add: distinct_map)
  ultimately show ?thesis by (simp add: strict_sorted_iff)
qed

lemma truncate_fields:
  "year (week_stats.truncate r) = year r" "week (week_stats.truncate r) = week r"
  "start (week_stats.truncate r) = start r" "end_date (week_stats.truncate r) = end_date r"
  "purchase_days (week_stats.truncate r) = purchase_days r"
  "avg_birds_day (week_stats.truncate r) = avg_birds_day r"
  "avg_wt_day (week_stats.truncate r) = avg_wt_day r"
  by (simp_all add: week_stats.defs)

lemma stats_exist:
  assumes inv: "entries_ok (\<lambda>v. dates_ok Q (acc_dates v)) weeks"
  shows "\<exists>stats. emap week_stats_of (sort_key fst weeks) = Inr stats
     \<and> list_all2 (\<lambda>item w. (year w, week w) = fst item \<and> Q (start w) \<and> Q (end_date w)
           \<and> 1 \<le> purchase_days w) (sort_key fst weeks) stats"
proof (rule emap_all_Inr)
  fix item assume "item \<in> set (sort_key fst weeks)"
  then have mem: "item \<in> set weeks" by simp
  obtain yr wk vals where item: "item = ((yr, wk), vals)" by (cases item) auto
  from mem inv have "dates_ok Q (acc_dates vals)" unfolding entries_ok_def item by blast
  from week_stats_of_Inr [OF this, of yr wk]
  show "\<exists>w. week_stats_of item = Inr w \<and> (year w, week w) = fst item \<and> Q (start w)
     \<and> Q (end_date w) \<and> 1 \<le> purchase_days w"
    unfolding item by auto
qed

lemma wow_rows:
  assumes "wow_loop None stats = Inr rs"
  shows "length rs = length stats"
    and "i < length stats \<Longrightarrow> year (rs ! i) = year (stats ! i) \<and> week (rs ! i) = week (stats ! i)
          \<and> start (rs ! i) = start (stats ! i) \<and> end_date (rs ! i) = end_date (stats ! i)
          \<and> purchase_days (rs ! i) = purchase_days (stats ! i)
          \<and> avg_birds_day (rs ! i) = avg_birds_day (stats ! i)
          \<and> avg_wt_day (rs ! i) = avg_wt_day (stats ! i)"
    and "i < length stats \<Longrightarrow> birds_wow (rs ! i) =
             (if i = 0 then None
              else wow_expected (Some (avg_birds_day (stats ! (i - 1)))) (avg_birds_day (stats ! i)))"
    and "i < length stats \<Longrightarrow> wt_wow (rs ! i) =
             (if i = 0 then None
              else wow_expected (Some (avg_wt_day (stats ! (i - 1)))) (avg_wt_day (stats ! i)))"
proof -
  from wow_loop_Inr [of None stats] assms
  have len: "length rs = length stats"
    and all: "\<forall>i<length stats. week_stats.truncate (rs ! i) = stats ! i
          \<and> birds_wow (rs ! i) =
              wow_expected (if i = 0 then map_option avg_birds_day None
                            else Some (avg_birds_day (stats ! (i - 1)))) (avg_birds_day (stats ! i))
          \<and> wt_wow (rs ! i) =
              wow_expected (if i = 0 then map_option avg_wt_day None
                            else Some (avg_wt_day (stats ! (i - 1)))) (avg_wt_day (stats ! i))"
    by simp_all
  show "length rs = length stats" by (rule len)
  {
    assume i: "i < length stats"
    from all i have tr: "week_stats.truncate (rs ! i) = stats ! i"
      and bw: "birds_wow (rs ! i) =
              wow_expected (if i = 0 then map_option avg_birds_day None
                            else Some (avg_birds_day (stats ! (i - 1)))) (avg_birds_day (stats ! i))"
      and ww: "wt_wow (rs ! i) =
              wow_expected (if i = 0 then map_option avg_wt_day None
                            else Some (avg_wt_day (stats ! (i - 1)))) (avg_wt_day (stats ! i))"
      by blast+
    show "year (rs ! i) = year (stats ! i) \<and> week (rs ! i) = week (stats ! i)
          \<and> start (rs ! i) = start (stats ! i) \<and> end_date (rs ! i) = end_date (stats ! i)
          \<and> purchase_days (rs ! i) = purchase_days (stats ! i)
          \<and> avg_birds_day (rs ! i) = avg_birds_day (stats ! i)
          \<and> avg_wt_day (rs ! i) = avg_wt_day (stats ! i)"
      unfolding tr [symmetric] by (simp only: truncate_fields)
    show "birds_wow (rs ! i) =
             (if i = 0 then None
              else wow_expected (Some (avg_birds_day (stats ! (i - 1)))) (avg_birds_day (stats ! i)))"
      using bw by (cases "i = 0") (simp_all add: wow_expected_def)
    show "wt_wow (rs ! i) =
             (if i = 0 then None
              else wow_expected (Some (avg_wt_day (stats ! (i - 1)))) (avg_wt_day (stats ! i)))"
      using ww by (cases "i = 0") (simp_all add: wow_expected_def)
  }
qed

lemma aggregate_weekly_Inr:
  assumes "efold (purchase_row cy) [] data = Inr weeks"
  shows "\<exists>rs. aggregate_weekly cy data = Inr rs
     \<and> sorted_wrt (<) (map (\<lambda>w. (year w, week w)) rs)
     \<and> (\<forall>w\<in>set rs. 1 \<le> purchase_days w
           \<and> admitted_date cy (\<lambda>row. index row COL_DATE) data (start w)
           \<and> admitted_date cy (\<lambda>row. index row COL_DATE) data (end_date w))
     \<and> (\<forall>i<length rs.
           birds_wow (rs ! i) =
             (if i = 0 then None
              else wow_expected (Some (avg_birds_day (rs ! (i - 1)))) (avg_birds_day (rs ! i)))
         \<and> wt_wow (rs ! i) =
             (if i = 0 then None
              else wow_expected (Some (avg_wt_day (rs ! (i - 1)))) (avg_wt_day (rs ! i))))"
proof -
  let ?Q = "admitted_date cy (\<lambda>row. index row COL_DATE) data"
  from assms have inv: "entries_ok (\<lambda>v. dates_ok ?Q (acc_dates v)) weeks"
    by (rule purchase_fold_invariant)
  from stats_exist [OF inv] obtain stats
    where stats: "emap week_stats_of (sort_key fst weeks) = Inr stats"
      and rel: "list_all2 (\<lambda>item w. (year w, week w) = fst item \<and> ?Q (start w) \<and> ?Q (end_date w)
           \<and> 1 \<le> purchase_days w) (sort_key fst weeks) stats"
    by (elim exE conjE)
  from wow_loop_Inr [of None stats] obtain rs where rs: "wow_loop None stats = Inr rs"
    by (elim exE conjE)
  note len = wow_rows(1) [OF rs]
  note fld = wow_rows(2) [OF rs]
  have agg: "aggregate_weekly cy data = Inr rs"
    using assms stats rs by (simp add: aggregate_weekly_def ebind_Inr)
  from rel have len2: "length (sort_key fst weeks) = length stats"
    by (rule list_all2_lengthD)
  have at: "(year (stats ! i), week (stats ! i)) = fst (sort_key fst weeks ! i)
      \<and> ?Q (start (stats ! i)) \<and> ?Q (end_date (stats ! i)) \<and> 1 \<le> purchase_days (stats ! i)"
    if "i < length stats" for i
    using rel that len2 by (auto simp only: list_all2_conv_all_nth)
  have keys: "map (\<lambda>w. (year w, week w)) rs = map fst (sort_key fst weeks)"
  proof (rule nth_equalityI)
    show "length (map (\<lambda>w. (year w, week w)) rs) = length (map fst (sort_key fst weeks))"
      using len len2 by simp
  next
    fix i assume "i < length (map (\<lambda>w. (year w, week w)) rs)"
    then have i: "i < length stats" using len by simp
    from at [OF i] fld [OF i] i len len2
    show "map (\<lambda>w. (year w, week w)) rs ! i = map fst (sort_key fst weeks) ! i"
      by simp
  qed
  from inv have "distinct (map fst weeks)" by (simp add: entries_ok_def)
  then have srt: "sorted_wrt (<) (map (\<lambda>w. (year w, week w)) rs)"
    unfolding keys by (rule sorted_keys)
  have each: "1 \<le> purchase_days w \<and> ?Q (start w) \<and> ?Q (end_date w)" if "w \<in> set rs" for w
  proof -
    from that obtain i where i: "i < length rs" "w = rs ! i" by (auto simp: in_set_conv_nth)
    then have i': "i < length stats" using len by simp
    from at [OF i'] fld [OF i'] show ?thesis unfolding i(2) by simp
  qed
  have wow: "birds_wow (rs ! i) =
             (if i = 0 then None
              else wow_expected (Some (avg_birds_day (rs ! (i - 1)))) (avg_birds_day (rs ! i)))
         \<and> wt_wow (rs ! i) =
             (if i = 0 then None
              else wow_expected (Some (avg_wt_day (rs ! (i - 1)))) (avg_wt_day (rs ! i)))"
    if "i < length rs" for i
  proof (cases "i = 0")
    case True
    from that len have "i < length stats" by simp
    from wow_rows(3,4) [OF rs this] True show ?thesis by simp
  next
    case False
    from that len have i: "i < length stats" and j: "i - 1 < length stats" by simp_all
    from wow_rows(3,4) [OF rs i] fld [OF i] fld [OF j] False show ?thesis by simp
  qed
  from agg srt each wow show ?thesis by blast
qed

subsection \<open>The loops of \<open>aggregate_weekly_prices\<close>\<close>

lemma day_prices_of_positive: "day_prices_of row = Inr ps \<Longrightarrow> \<forall>p\<in>set ps. 0 < p"
  by (auto simp: day_prices_of_eq)

lemma price_add_Inr:
  assumes "day_prices \<noteq> []"
  shows "\<exists>dp. price_add dt day_prices weeks =
     Inr (store (week_key dt)
            ((lookup_default price_default weeks (week_key dt))
               \<lparr>pa_dates := pa_dates (lookup_default price_default weeks (week_key dt)) @ [dt],
                pa_prices := pa_prices (lookup_default price_default weeks (week_key dt)) @ [dp]\<rparr>)
            weeks)"
proof -
  from py_min_Inr [OF assms] obtain mn where mn: "py_min day_prices = Inr mn" by blast
  from py_max_Inr [OF assms] obtain mx where mx: "py_max day_prices = Inr mx" by blast
  show ?thesis
    by (rule exI [of _ "\<lparr>dp_avg = sum_list day_prices / of_nat (length day_prices),
                          dp_min = mn, dp_max = mx\<rparr>"])
       (simp add: price_add_def Let_def mean_Inr [OF assms] mn mx ebind_Inr lookup_store
          store_store)
qed

lemma price_row_step_cases:
  obtains (raised) e where "index row 0 = Inl e" "price_row_step cy weeks row = Inl e"
  | (skipped) "price_row_step cy weeks row = Inr weeks"
  | (admitted) c dt ps where "index row 0 = Inr c" "parse_date (PStr c) = Inr (Some dt)"
      "dt_year dt = cy" "ps \<noteq> []" "price_row_step cy weeks row = price_add dt ps weeks"
proof (cases "index row 0")
  case (Inl e)
  then show ?thesis by (intro raised [of e]) (simp_all add: price_row_step_def ebind_Inl)
next
  case (Inr c)
  obtain r where r: "parse_date (PStr c) = Inr r" using parse_date_total by blast
  show ?thesis
  proof (cases r)
    case None
    with Inr r show ?thesis by (intro skipped) (simp add: price_row_step_def ebind_Inr)
  next
    case (Some dt)
    show ?thesis
    proof (cases "dt_year dt = cy")
      case False
      with Inr r Some show ?thesis
        by (intro skipped) (simp add: price_row_step_def ebind_Inr)
    next
      case True
      show ?thesis
      proof (cases "filter (\<lambda>p. 0 < p) (map (\<lambda>c. projr (safe_float (PStr c))) (tl row)) = []")
        case empty: True
        with Inr r Some True show ?thesis
          by (intro skipped) (simp add: price_row_step_def ebind_Inr day_prices_of_eq)
      next
        case nonempty: False
        with Inr r Some True show ?thesis
          by (intro admitted [of c dt "filter (\<lambda>p. 0 < p) (map (\<lambda>c. projr (safe_float (PStr c))) (tl row))"])
             (simp_all add: price_row_step_def ebind_Inr day_prices_of_eq)
      qed
    qed
  qed
qed


lemma price_row_step_invariant:
  assumes inv: "entries_ok (\<lambda>v. dates_ok Q (pa_dates v) \<and> pa_prices v \<noteq> []) weeks"
    and step: "price_row_step cy weeks row = Inr weeks'"
    and Q: "\<And>c dt. index row 0 = Inr c \<Longrightarrow> parse_date (PStr c) = Inr (Some dt)
           \<Longrightarrow> dt_year dt = cy \<Longrightarrow> Q dt"
  shows "entries_ok (\<lambda>v. dates_ok Q (pa_dates v) \<and> pa_prices v \<noteq> []) weeks'"
proof (cases rule: price_row_step_cases [of row cy weeks])
  case (raised e)
  with step show ?thesis by simp
next
  case skipped
  with step inv show ?thesis by simp
next
  case (admitted c dt ps)
  from admitted(1,2,3) have "Q dt" by (rule Q)
  from price_add_Inr [OF admitted(4), of dt weeks] obtain dp where
    "price_add dt ps weeks = Inr (store (week_key dt)
            ((lookup_default price_default weeks (week_key dt))
               \<lparr>pa_dates := pa_dates (lookup_default price_default weeks (week_key dt)) @ [dt],
                pa_prices := pa_prices (lookup_default price_default weeks (week_key dt)) @ [dp]\<rparr>)
            weeks)" by blast
  with admitted(5) step have w: "weeks' = store (week_key dt)
            ((lookup_default price_default weeks (week_key dt))
               \<lparr>pa_dates := pa_dates (lookup_default price_default weeks (week_key dt)) @ [dt],
                pa_prices := pa_prices (lookup_default price_default weeks (week_key dt)) @ [dp]\<rparr>)
            weeks" by simp
  from inv have "lookup_default price_default weeks (week_key dt) = price_default
      \<or> (dates_ok Q (pa_dates (lookup_default price_default weeks (week_key dt)))
          \<and> pa_prices (lookup_default price_default weeks (week_key dt)) \<noteq> [])"
    by (rule entries_ok_lookup)
  then have "dates_ok Q (pa_dates (lookup_default price_default weeks (week_key dt)) @ [dt])"
    using \<open>Q dt\<close> by (auto simp: dates_ok_def price_default_def)
  then show ?thesis
    unfolding w using inv by (intro entries_ok_store) simp_all
qed

lemma price_fold_invariant:
  assumes "efold (price_row_step cy) [] data = Inr weeks"
  shows "entries_ok (\<lambda>v. dates_ok (admitted_date cy (\<lambda>row. index row 0) data) (pa_dates v)
           \<and> pa_prices v \<noteq> []) weeks"
  using assms
proof (rule efold_invariant)
  show "entries_ok (\<lambda>v. dates_ok (admitted_date cy (\<lambda>row. index row 0) data) (pa_dates v)
           \<and> pa_prices v \<noteq> []) []"
    by (rule entries_ok_Nil)
next
  fix s row s'
  assume inv: "entries_ok (\<lambda>v. dates_ok (admitted_date cy (\<lambda>row. index row 0) data) (pa_dates v)
           \<and> pa_prices v \<noteq> []) s"
    and row: "row \<in> set data" and step: "price_row_step cy s row = Inr s'"
  from inv step
  show "entries_ok (\<lambda>v. dates_ok (admitted_date cy (\<lambda>row. index row 0) data) (pa_dates v)
           \<and> pa_prices v \<noteq> []) s'"
    by (rule price_row_step_invariant) (use row in \<open>auto simp: admitted_date_def\<close>)
qed

lemma round_half_even_of_int: "round_half_even (of_int k) = k"
  by (simp add: round_half_even_def)

lemma py_round_0: "py_round x 0 = of_int (round_half_even x)"
  by (simp add: py_round_def)

lemma py_round_0_diff: "py_round (py_round a 0 - py_round b 0) 0 = py_round a 0 - py_round b 0"
proof -
  have "py_round a 0 - py_round b 0 = of_int (round_half_even a - round_half_even b)"
    by (simp add: py_round_0)
  then show ?thesis
    by (simp only: py_round_0 round_half_even_of_int)
qed

lemma price_stats_of_Inr:
  assumes "dates_ok Q (pa_dates vals)" and "pa_prices vals \<noteq> []"
  shows "\<exists>w a. price_stats_of ((yr, wk), vals) = Inr w \<and> p_year w = yr \<and> p_week w = wk
     \<and> Q (p_start w) \<and> Q (p_end w) \<and> 1 \<le> entries w \<and> avg_price w = py_round a 0"
proof -
  from assms have ne: "pa_dates vals \<noteq> []" and all: "\<forall>d\<in>set (pa_dates vals). Q d"
    by (simp_all add: dates_ok_def)
  from py_min_Inr [OF ne] obtain mn where mn: "py_min (pa_dates vals) = Inr mn"
    "mn \<in> set (pa_dates vals)" by blast
  from py_max_Inr [OF ne] obtain mx where mx: "py_max (pa_dates vals) = Inr mx"
    "mx \<in> set (pa_dates vals)" by blast
  from assms(2) have ne1: "map dp_avg (pa_prices vals) \<noteq> []"
    and ne2: "map dp_min (pa_prices vals) \<noteq> []" and ne3: "map dp_max (pa_prices vals) \<noteq> []"
    by simp_all
  from py_min_Inr [OF ne2] obtain lo where lo: "py_min (map dp_min (pa_prices vals)) = Inr lo"
    by blast
  from py_max_Inr [OF ne3] obtain hi where hi: "py_max (map dp_max (pa_prices vals)) = Inr hi"
    by blast
  from assms(2) have pos: "0 < length (pa_prices vals)" by simp
  show ?thesis
    using mn mx all lo hi pos
    by (simp add: price_stats_of_def ebind_Inr mean_Inr [OF ne1] Suc_le_eq del: length_greater_0_conv)
       blast
qed

lemma add_price_wow_Inr:
  "\<exists>r. add_price_wow prev w = Inr r \<and> price_stats.truncate r = w
     \<and> wow_pct r = wow_expected (map_option avg_price prev) (avg_price w)
     \<and> wow_abs r = map_option (\<lambda>d. py_round d 0) (abs_expected (map_option avg_price prev) (avg_price w))"
  by (cases prev)
     (simp_all add: add_price_wow_def wow_expected_def abs_expected_def pct_change_Inr ebind_Inr
        price_stats.defs)

lemma price_wow_loop_Inr:
  "\<exists>rs. price_wow_loop prev ws = Inr rs \<and> length rs = length ws
     \<and> (\<forall>i<length ws. price_stats.truncate (rs ! i) = ws ! i
          \<and> wow_pct (rs ! i) =
              wow_expected (if i = 0 then map_option avg_price prev
                            else Some (avg_price (ws ! (i - 1)))) (avg_price (ws ! i))
          \<and> wow_abs (rs ! i) = map_option (\<lambda>d. py_round d 0)
              (abs_expected (if i = 0 then map_option avg_price prev
                            else Some (avg_price (ws ! (i - 1)))) (avg_price (ws ! i))))"
proof (induction ws arbitrary: prev)
  case Nil
  show ?case by simp
next
  case (Cons w ws)
  from add_price_wow_Inr [of prev w] obtain r where r: "add_price_wow prev w = Inr r"
    "price_stats.truncate r = w"
    "wow_pct r = wow_expected (map_option avg_price prev) (avg_price w)"
    "wow_abs r = map_option (\<lambda>d. py_round d 0) (abs_expected (map_option avg_price prev) (avg_price w))"
    by blast
  from Cons.IH [of "Some w"] obtain rs where rs: "price_wow_loop (Some w) ws = Inr rs"
    "length rs = length ws"
    "\<forall>i<length ws. price_stats.truncate (rs ! i) = ws ! i
          \<and> wow_pct (rs ! i) =
              wow_expected (if i = 0 then map_option avg_price (Some w)
                            else Some (avg_price (ws ! (i - 1)))) (avg_price (ws ! i))
          \<and> wow_abs (rs ! i) = map_option (\<lambda>d. py_round d 0)
              (abs_expected (if i = 0 then map_option avg_price (Some w)
                            else Some (avg_price (ws ! (i - 1)))) (avg_price (ws ! i)))"
    by blast
  have "price_wow_loop prev (w # ws) = Inr (r # rs)"
    using r(1) rs(1) by (simp add: ebind_Inr)
  moreover have "length (r # rs) = length (w # ws)" using rs(2) by simp
  moreover have "price_stats.truncate ((r # rs) ! i) = (w # ws) ! i
          \<and> wow_pct ((r # rs) ! i) =
              wow_expected (if i = 0 then map_option avg_price prev
                            else Some (avg_price ((w # ws) ! (i - 1)))) (avg_price ((w # ws) ! i))
          \<and> wow_abs ((r # rs) ! i) = map_option (\<lambda>d. py_round d 0)
              (abs_expected (if i = 0 then map_option avg_price prev
                            else Some (avg_price ((w # ws) ! (i - 1)))) (avg_price ((w # ws) ! i)))"
    if "i < length (w # ws)" for i
  proof (cases i)
    case 0
    with r show ?thesis by simp
  next
    case (Suc j)
    with that have "j < length ws" by simp
    with rs(3) Suc show ?thesis by (cases j) simp_all
  qed
  ultimately show ?case by blast
qed

lemma price_truncate_fields:
  "p_year (price_stats.truncate r) = p_year r" "p_week (price_stats.truncate r) = p_week r"
  "p_start (price_stats.truncate r) = p_start r" "p_end (price_stats.truncate r) = p_end r"
  "entries (price_stats.truncate r) = entries r"
  "avg_price (price_stats.truncate r) = avg_price r"
  by (simp_all add: price_stats.defs)

lemma price_stats_exist:
  assumes inv: "entries_ok (\<lambda>v. dates_ok Q (pa_dates v) \<and> pa_prices v \<noteq> []) weeks"
  shows "\<exists>stats. emap price_stats_of (sort_key fst weeks) = Inr stats
     \<and> list_all2 (\<lambda>item w. (p_year w, p_week w) = fst item \<and> Q (p_start w) \<and> Q (p_end w)
           \<and> 1 \<le> entries w \<and> (\<exists>a. avg_price w = py_round a 0)) (sort_key fst weeks) stats"
proof (rule emap_all_Inr)
  fix item assume "item \<in> set (sort_key fst weeks)"
  then have mem: "item \<in> set weeks" by simp
  obtain yr wk vals where item: "item = ((yr, wk), vals)" by (cases item) auto
  from mem inv have "dates_ok Q (pa_dates vals) \<and> pa_prices vals \<noteq> []"
    unfolding entries_ok_def item by blast
  then have "dates_ok Q (pa_dates vals)" "pa_prices vals \<noteq> []" by simp_all
  from price_stats_of_Inr [OF this, of yr wk]
  show "\<exists>w. price_stats_of item = Inr w \<and> (p_year w, p_week w) = fst item \<and> Q (p_start w)
     \<and> Q (p_end w) \<and> 1 \<le> entries w \<and> (\<exists>a. avg_price w = py_round a 0)"
    unfolding item by auto
qed

lemma price_rows:
  assumes "price_wow_loop None stats = Inr rs"
  shows "length rs = length stats"
    and "i < length stats \<Longrightarrow> p_year (rs ! i) = p_year (stats ! i) \<and> p_week (rs ! i) = p_week (stats ! i)
          \<and> p_start (rs ! i) = p_start (stats ! i) \<and> p_end (rs ! i) = p_end (stats ! i)
          \<and> entries (rs ! i) = entries (stats ! i)
          \<and> avg_price (rs ! i) = avg_price (stats ! i)"
    and "i < length stats \<Longrightarrow> wow_pct (rs ! i) =
             (if i = 0 then None
              else wow_expected (Some (avg_price (stats ! (i - 1)))) (avg_price (stats ! i)))"
    and "i < length stats \<Longrightarrow> wow_abs (rs ! i) =
             (if i = 0 then None
              else map_option (\<lambda>d. py_round d 0)
                     (abs_expected (Some (avg_price (stats ! (i - 1)))) (avg_price (stats ! i))))"
proof -
  from price_wow_loop_Inr [of None stats] assms
  have len: "length rs = length stats"
    and all: "\<forall>i<length stats. price_stats.truncate (rs ! i) = stats ! i
          \<and> wow_pct (rs ! i) =
              wow_expected (if i = 0 then map_option avg_price None
                            else Some (avg_price (stats ! (i - 1)))) (avg_price (stats ! i))
          \<and> wow_abs (rs ! i) = map_option (\<lambda>d. py_round d 0)
              (abs_expected (if i = 0 then map_option avg_price None
                            else Some (avg_price (stats ! (i - 1)))) (avg_price (stats ! i)))"
    by simp_all
  show "length rs = length stats" by (rule len)
  {
    assume i: "i < length stats"
    from all i have tr: "price_stats.truncate (rs ! i) = stats ! i"
      and wp: "wow_pct (rs ! i) =
              wow_expected (if i = 0 then map_option avg_price None
                            else Some (avg_price (stats ! (i - 1)))) (avg_price (stats ! i))"
      and wa: "wow_abs (rs ! i) = map_option (\<lambda>d. py_round d 0)
              (abs_expected (if i = 0 then map_option avg_price None
                            else Some (avg_price (stats ! (i - 1)))) (avg_price (stats ! i)))"
      by blast+
    show "p_year (rs ! i) = p_year (stats ! i) \<and> p_week (rs ! i) = p_week (stats ! i)
          \<and> p_start (rs ! i) = p_start (stats ! i) \<and> p_end (rs ! i) = p_end (stats ! i)
          \<and> entries (rs ! i) = entries (stats ! i)
          \<and> avg_price (rs ! i) = avg_price (stats ! i)"
      unfolding tr [symmetric] by (simp only: price_truncate_fields)
    show "wow_pct (rs ! i) =
             (if i = 0 then None
              else wow_expected (Some (avg_price (stats ! (i - 1)))) (avg_price (stats ! i)))"
      using wp by (cases "i = 0") (simp_all add: wow_expected_def)
    show "wow_abs (rs ! i) =
             (if i = 0 then None
              else map_option (\<lambda>d. py_round d 0)
                     (abs_expected (Some (avg_price (stats ! (i - 1)))) (avg_price (stats ! i))))"
      using wa by (cases "i = 0") (simp_all add: abs_expected_def)
  }
qed

lemma aggregate_weekly_prices_Inr:
  assumes "efold (price_row_step cy) [] data = Inr weeks"
  shows "\<exists>rs. aggregate_weekly_prices cy data = Inr rs
     \<and> sorted_wrt (<) (map (\<lambda>w. (p_year w, p_week w)) rs)
     \<and> (\<forall>w\<in>set rs. 1 \<le> entries w
           \<and> admitted_date cy (\<lambda>row. index row 0) data (p_start w)
           \<and> admitted_date cy (\<lambda>row. index row 0) data (p_end w))
     \<and> (\<forall>i<length rs.
           wow_pct (rs ! i) =
             (if i = 0 then None
              else wow_expected (Some (avg_price (rs ! (i - 1)))) (avg_price (rs ! i)))
         \<and> wow_abs (rs ! i) =
             (if i = 0 then None
              else abs_expected (Some (avg_price (rs ! (i - 1)))) (avg_price (rs ! i))))"
proof -
  let ?Q = "admitted_date cy (\<lambda>row. index row 0) data"
  from assms have inv: "entries_ok (\<lambda>v. dates_ok ?Q (pa_dates v) \<and> pa_prices v \<noteq> []) weeks"
    by (rule price_fold_invariant)
  from price_stats_exist [OF inv] obtain stats
    where stats: "emap price_stats_of (sort_key fst weeks) = Inr stats"
      and rel: "list_all2 (\<lambda>item w. (p_year w, p_week w) = fst item \<and> ?Q (p_start w) \<and> ?Q (p_end w)
           \<and> 1 \<le> entries w \<and> (\<exists>a. avg_price w = py_round a 0)) (sort_key fst weeks) stats"
    by (elim exE conjE)
  from price_wow_loop_Inr [of None stats] obtain rs where rs: "price_wow_loop None stats = Inr rs"
    by (elim exE conjE)
  note len = price_rows(1) [OF rs]
  note fld = price_rows(2) [OF rs]
  have agg: "aggregate_weekly_prices cy data = Inr rs"
    using assms stats rs by (simp add: aggregate_weekly_prices_def ebind_Inr)
  from rel have len2: "length (sort_key fst weeks) = length stats"
    by (rule list_all2_lengthD)
  have at: "(p_year (stats ! i), p_week (stats ! i)) = fst (sort_key fst weeks ! i)
      \<and> ?Q (p_start (stats ! i)) \<and> ?Q (p_end (stats ! i)) \<and> 1 \<le> entries (stats ! i)
      \<and> (\<exists>a. avg_price (stats ! i) = py_round a 0)"
    if "i < length stats" for i
    using rel that len2 by (auto simp only: list_all2_conv_all_nth)
  have keys: "map (\<lambda>w. (p_year w, p_week w)) rs = map fst (sort_key fst weeks)"
  proof (rule nth_equalityI)
    show "length (map (\<lambda>w. (p_year w, p_week w)) rs) = length (map fst (sort_key fst weeks))"
      using len len2 by simp
  next
    fix i assume "i < length (map (\<lambda>w. (p_year w, p_week w)) rs)"
    then have i: "i < length stats" using len by simp
    from at [OF i] fld [OF i] i len len2
    show "map (\<lambda>w. (p_year w, p_week w)) rs ! i = map fst (sort_key fst weeks) ! i"
      by simp
  qed
  from inv have "distinct (map fst weeks)" by (simp add: entries_ok_def)
  then have srt: "sorted_wrt (<) (map (\<lambda>w. (p_year w, p_week w)) rs)"
    unfolding keys by (rule sorted_keys)
  have each: "1 \<le> entries w \<and> ?Q (p_start w) \<and> ?Q (p_end w)" if "w \<in> set rs" for w
  proof -
    from that obtain i where i: "i < length rs" "w = rs ! i" by (auto simp: in_set_conv_nth)
    then have i': "i < length stats" using len by simp
    from at [OF i'] fld [OF i'] show ?thesis unfolding i(2) by simp
  qed
  have wow: "wow_pct (rs ! i) =
             (if i = 0 then None
              else wow_expected (Some (avg_price (rs ! (i - 1)))) (avg_price (rs ! i)))
         \<and> wow_abs (rs ! i) =
             (if i = 0 then None
              else abs_expected (Some (avg_price (rs ! (i - 1)))) (avg_price (rs ! i)))"
    if "i < length rs" for i
  proof (cases "i = 0")
    case True
    from that len have "i < length stats" by simp
    from price_rows(3,4) [OF rs this] True show ?thesis by simp
  next
    case False
    from that len have i: "i < length stats" and j: "i - 1 < length stats" by simp_all
    from at [OF i] obtain a where a: "avg_price (stats ! i) = py_round a 0" by blast
    from at [OF j] obtain b where b: "avg_price (stats ! (i - 1)) = py_round b 0" by blast
    have "map_option (\<lambda>d. py_round d 0)
            (abs_expected (Some (avg_price (stats ! (i - 1)))) (avg_price (stats ! i)))
          = abs_expected (Some (avg_price (stats ! (i - 1)))) (avg_price (stats ! i))"
      unfolding a b by (simp add: abs_expected_def py_round_0_diff)
    with price_rows(3,4) [OF rs i] fld [OF i] fld [OF j] False show ?thesis by simp
  qed
  from agg srt each wow show ?thesis by blast
qed



lemma aggregate_weekly_fold:
  "aggregate_weekly cy data = Inr rs \<Longrightarrow> \<exists>weeks. efold (purchase_row cy) [] data = Inr weeks"
  by (auto simp: aggregate_weekly_def ebind_eq_Inr)

lemma aggregate_weekly_prices_fold:
  "aggregate_weekly_prices cy data = Inr rs
     \<Longrightarrow> \<exists>weeks. efold (price_row_step cy) [] data = Inr weeks"
  by (auto simp: aggregate_weekly_prices_def ebind_eq_Inr)




subsection \<open>Buckets are never empty\<close>



subsection \<open>Week-over-week deltas\<close>




subsection \<open>The row filters\<close>

lemma buying_row_Some:
  assumes "buying_row cy cm row = Inr (Some r)"
  shows "\<exists>c cn. index row (col_get cm ''Date'' 1) = Inr c
     \<and> parse_date (PStr c) = Inr (Some (b_date r)) \<and> dt_year (b_date r) = cy
     \<and> index row (col_get cm ''Competitor Name'' 5) = Inr cn
     \<and> competitor r = strip cn \<and> competitor r \<noteq> []"
proof -
  from assms obtain c p where c: "index row (col_get cm ''Date'' 1) = Inr c"
    and p: "parse_date (PStr c) = Inr p"
    and rest: "(case p of None \<Rightarrow> Inr None
       | Some dt \<Rightarrow>
           if dt_year dt \<noteq> cy then Inr None
           else
             ebind (index row (col_get cm ''Competitor Name'' 5)) (\<lambda>cn.
             ebind (index row (col_get cm ''Product Type'' 6)) (\<lambda>pt.
             ebind (index row (col_get cm ''Competitor Price (N)'' 7)) (\<lambda>cp.
             ebind (parse_buying_price cp) (\<lambda>comp.
             ebind (index row (col_get cm ''Pullus Price (N)'' 8)) (\<lambda>pp.
             ebind (parse_buying_price pp) (\<lambda>pul.
             ebind (if col_get cm ''Notes'' 9 < length row
                    then ebind (index row (col_get cm ''Notes'' 9)) (\<lambda>n. Inr (strip n))
                    else Inr []) (\<lambda>nts.
             ebind (index row (col_get cm ''State'' 4)) (\<lambda>st.
             if strip cn = [] then Inr None
             else Inr (Some \<lparr>b_date = dt, b_state = strip st, competitor = strip cn,
                              product_type = title (strip pt), comp_price = comp,
                              pullus_price = pul, b_notes = nts\<rparr>)))))))))) = Inr (Some r)"
    unfolding buying_row_def ebind_eq_Inr by blast
  from rest obtain dt where dt: "p = Some dt" by (cases p) simp_all
  from rest dt have yr: "dt_year dt = cy" by (cases "dt_year dt = cy") simp_all
  from rest c p show ?thesis
    unfolding dt by (auto simp: yr ebind_eq_Inr split: if_splits)
qed

lemma buying_loop_records:
  "buying_loop cy cm rows = Inr rs \<Longrightarrow> r \<in> set rs
     \<Longrightarrow> \<exists>row\<in>set rows. buying_row cy cm row = Inr (Some r)"
proof (induction rows arbitrary: rs)
  case Nil
  then show ?case by simp
next
  case (Cons row rows)
  from Cons.prems(1) obtain x xs where x: "buying_row cy cm row = Inr x"
    and xs: "buying_loop cy cm rows = Inr xs"
    and rs: "rs = (case x of None \<Rightarrow> xs | Some y \<Rightarrow> y # xs)"
    by (auto simp: ebind_eq_Inr)
  show ?case
  proof (cases "r \<in> set xs")
    case True
    from Cons.IH [OF xs True] show ?thesis by auto
  next
    case False
    with rs Cons.prems(2) have "x = Some r" by (cases x) auto
    with x show ?thesis by simp
  qed
qed

lemma fetch_buying_data_records:
  assumes "fetch_buying_data cy rows = Inr rs" and "r \<in> set rs"
  shows "\<exists>idx. find_header 0 rows = Some idx
     \<and> (\<exists>row\<in>set (drop (Suc idx) rows).
           buying_row cy (col_map_of (rows ! idx)) row = Inr (Some r))"
proof (cases "find_header 0 rows")
  case None
  with assms show ?thesis by (simp add: fetch_buying_data_def)
next
  case (Some idx)
  with assms(1) have "buying_loop cy (col_map_of (rows ! idx)) (drop (Suc idx) rows) = Inr rs"
    by (simp add: fetch_buying_data_def)
  from buying_loop_records [OF this assms(2)] Some show ?thesis by simp
qed

text \<open>
  C7. A row enters the aggregation only if its date cell parses and the parsed date lies in
  the current year: a step of the row loop of \<open>aggregate_weekly\<close> or of
  \<open>aggregate_weekly_prices\<close> that changes the buckets, and a step of the loop of
  \<open>fetch_buying_data\<close> that yields a record, has such a date, and the record of
  \<open>fetch_buying_data\<close> has a competitor name that is not blank. Consequently every date
  collected in a bucket, every record returned by \<open>fetch_buying_data\<close> and the start and
  end date of every emitted bucket is a current-year date parsed from a row of the input.
\<close>

theorem row_filter_current_year:
  "(purchase_row cy weeks row = Inr weeks' \<and> weeks' \<noteq> weeks \<longrightarrow>
      (\<exists>c dt. index row COL_DATE = Inr c \<and> parse_date (PStr c) = Inr (Some dt) \<and> dt_year dt = cy))
   \<and> (price_row_step cy pweeks row = Inr pweeks' \<and> pweeks' \<noteq> pweeks \<longrightarrow>
      (\<exists>c dt. index row 0 = Inr c \<and> parse_date (PStr c) = Inr (Some dt) \<and> dt_year dt = cy))
   \<and> (buying_row cy col_map row = Inr (Some r) \<longrightarrow>
      (\<exists>c cn. index row (col_get col_map ''Date'' 1) = Inr c
         \<and> parse_date (PStr c) = Inr (Some (b_date r)) \<and> dt_year (b_date r) = cy
         \<and> index row (col_get col_map ''Competitor Name'' 5) = Inr cn
         \<and> competitor r = strip cn \<and> competitor r \<noteq> []))
   \<and> (efold (purchase_row cy) [] data = Inr ws \<longrightarrow>
      (\<forall>(k, v)\<in>set ws. \<forall>d\<in>set (acc_dates v).
          admitted_date cy (\<lambda>row. index row COL_DATE) data d))
   \<and> (efold (price_row_step cy) [] data = Inr pws \<longrightarrow>
      (\<forall>(k, v)\<in>set pws. \<forall>d\<in>set (pa_dates v). admitted_date cy (\<lambda>row. index row 0) data d))
   \<and> (fetch_buying_data cy data = Inr recs \<longrightarrow>
      (\<forall>b\<in>set recs. competitor b \<noteq> [] \<and>
         (\<exists>idx. find_header 0 data = Some idx \<and>
            admitted_date cy (\<lambda>row. index row (col_get (col_map_of (data ! idx)) ''Date'' 1))
              (drop (Suc idx) data) (b_date b))))
   \<and> (aggregate_weekly cy data = Inr rs \<longrightarrow>
      (\<forall>w\<in>set rs. admitted_date cy (\<lambda>row. index row COL_DATE) data (start w)
         \<and> admitted_date cy (\<lambda>row. index row COL_DATE) data (end_date w)))
   \<and> (aggregate_weekly_prices cy data = Inr ps \<longrightarrow>
      (\<forall>w\<in>set ps. admitted_date cy (\<lambda>row. index row 0) data (p_start w)
         \<and> admitted_date cy (\<lambda>row. index row 0) data (p_end w)))"
proof (intro conjI impI)
  assume a: "purchase_row cy weeks row = Inr weeks' \<and> weeks' \<noteq> weeks"
  show "\<exists>c dt. index row COL_DATE = Inr c \<and> parse_date (PStr c) = Inr (Some dt) \<and> dt_year dt = cy"
    using a by (cases rule: purchase_row_cases [of row cy weeks]) auto
next
  assume a: "price_row_step cy pweeks row = Inr pweeks' \<and> pweeks' \<noteq> pweeks"
  show "\<exists>c dt. index row 0 = Inr c \<and> parse_date (PStr c) = Inr (Some dt) \<and> dt_year dt = cy"
    using a by (cases rule: price_row_step_cases [of row cy pweeks]) auto
next
  assume "buying_row cy col_map row = Inr (Some r)"
  then show "\<exists>c cn. index row (col_get col_map ''Date'' 1) = Inr c
         \<and> parse_date (PStr c) = Inr (Some (b_date r)) \<and> dt_year (b_date r) = cy
         \<and> index row (col_get col_map ''Competitor Name'' 5) = Inr cn
         \<and> competitor r = strip cn \<and> competitor r \<noteq> []"
    by (rule buying_row_Some)
next
  assume "efold (purchase_row cy) [] data = Inr ws"
  then have "entries_ok (\<lambda>v. dates_ok (admitted_date cy (\<lambda>row. index row COL_DATE) data)
      (acc_dates v)) ws"
    by (rule purchase_fold_invariant)
  then show "\<forall>(k, v)\<in>set ws. \<forall>d\<in>set (acc_dates v).
      admitted_date cy (\<lambda>row. index row COL_DATE) data d"
    unfolding entries_ok_def dates_ok_def by blast
next
  assume "efold (price_row_step cy) [] data = Inr pws"
  then have "entries_ok (\<lambda>v. dates_ok (admitted_date cy (\<lambda>row. index row 0) data) (pa_dates v)
           \<and> pa_prices v \<noteq> []) pws"
    by (rule price_fold_invariant)
  then show "\<forall>(k, v)\<in>set pws. \<forall>d\<in>set (pa_dates v). admitted_date cy (\<lambda>row. index row 0) data d"
    unfolding entries_ok_def dates_ok_def by blast
next
  assume f: "fetch_buying_data cy data = Inr recs"
  show "\<forall>b\<in>set recs. competitor b \<noteq> [] \<and>
         (\<exists>idx. find_header 0 data = Some idx \<and>
            admitted_date cy (\<lambda>row. index row (col_get (col_map_of (data ! idx)) ''Date'' 1))
              (drop (Suc idx) data) (b_date b))"
  proof
    fix b assume "b \<in> set recs"
    from fetch_buying_data_records [OF f this] obtain idx row
      where idx: "find_header 0 data = Some idx" and row: "row \<in> set (drop (Suc idx) data)"
        and b: "buying_row cy (col_map_of (data ! idx)) row = Inr (Some b)"
      by blast
    from buying_row_Some [OF b] obtain c where
      "index row (col_get (col_map_of (data ! idx)) ''Date'' 1) = Inr c"
      "parse_date (PStr c) = Inr (Some (b_date b))" "dt_year (b_date b) = cy"
      and ne: "competitor b \<noteq> []"
      by blast
    with row have "admitted_date cy (\<lambda>row. index row (col_get (col_map_of (data ! idx)) ''Date'' 1))
              (drop (Suc idx) data) (b_date b)"
      unfolding admitted_date_def by blast
    with idx ne show "competitor b \<noteq> [] \<and>
         (\<exists>idx. find_header 0 data = Some idx \<and>
            admitted_date cy (\<lambda>row. index row (col_get (col_map_of (data ! idx)) ''Date'' 1))
              (drop (Suc idx) data) (b_date b))"
      by blast
  qed
next
  assume rs: "aggregate_weekly cy data = Inr rs"
  then obtain weeks where "efold (purchase_row cy) [] data = Inr weeks"
    using aggregate_weekly_fold by blast
  from aggregate_weekly_Inr [OF this] rs
  show "\<forall>w\<in>set rs. admitted_date cy (\<lambda>row. index row COL_DATE) data (start w)
         \<and> admitted_date cy (\<lambda>row. index row COL_DATE) data (end_date w)"
    by auto
next
  assume ps: "aggregate_weekly_prices cy data = Inr ps"
  then obtain weeks where "efold (price_row_step cy) [] data = Inr weeks"
    using aggregate_weekly_prices_fold by blast
  from aggregate_weekly_prices_Inr [OF this] ps
  show "\<forall>w\<in>set ps. admitted_date cy (\<lambda>row. index row 0) data (p_start w)
         \<and> admitted_date cy (\<lambda>row. index row 0) data (p_end w)"
    by auto
qed

theorem row_filter_current_year_witness:
  "(\<exists>c dt. index [''2025-01-06'', '''', '''', '''', '''', ''100'', '''', '''', ''50.0'', ''10.0''] COL_DATE = Inr c
      \<and> parse_date (PStr c) = Inr (Some dt) \<and> dt_year dt = 2025)
   \<and> fetch_buying_data 2025
     [[''Competitor prices''],
      [''Entry ID'', ''Date'', ''Week'', ''Month'', ''State'', ''Competitor Name'',
       ''Product Type'', ''Competitor Price (N)'', ''Pullus Price (N)'', ''Notes''],
      [''1'', ''06-Jan-2025'', '''', '''', ''Kano'', ''Acme'', ''dressed birds'',
       ''3,300 - 3,500'', ''4000'', ''''],
      [''2'', ''06-Jan-2024'', '''', '''', ''Kano'', ''Acme'', ''Dressed Birds'', ''3400'',
       ''4000'', ''''],
      [''3'', ''07-Jan-2025'', '''', '''', ''Kano'', ''  '', ''Dressed Birds'', ''3400'',
       ''4000'', '''']]
     = Inr [\<lparr>b_date = (2025, 1, 6), b_state = ''Kano'', competitor = ''Acme'',
         product_type = ''Dressed Birds'', comp_price = Some 3400,
         pullus_price = Some 4000, b_notes = []\<rparr>]
   \<and> competitor
     (\<lparr>b_date = (2025, 1, 6), b_state = ''Kano'', competitor = ''Acme'',
         product_type = ''Dressed Birds'', comp_price = Some 3400,
         pullus_price = Some 4000, b_notes = []\<rparr>)
     \<noteq> []
   \<and> dt_year (b_date
     (\<lparr>b_date = (2025, 1, 6), b_state = ''Kano'', competitor = ''Acme'',
         product_type = ''Dressed Birds'', comp_price = Some 3400,
         pullus_price = Some 4000, b_notes = []\<rparr>)) = 2025"
proof -
  let ?row = "[''2025-01-06'', '''', '''', '''', '''', ''100'', '''', '''', ''50.0'', ''10.0'']"
  let ?rows = "[[''Competitor prices''],
      [''Entry ID'', ''Date'', ''Week'', ''Month'', ''State'', ''Competitor Name'',
       ''Product Type'', ''Competitor Price (N)'', ''Pullus Price (N)'', ''Notes''],
      [''1'', ''06-Jan-2025'', '''', '''', ''Kano'', ''Acme'', ''dressed birds'',
       ''3,300 - 3,500'', ''4000'', ''''],
      [''2'', ''06-Jan-2024'', '''', '''', ''Kano'', ''Acme'', ''Dressed Birds'', ''3400'',
       ''4000'', ''''],
      [''3'', ''07-Jan-2025'', '''', '''', ''Kano'', ''  '', ''Dressed Birds'', ''3400'',
       ''4000'', '''']]"
  let ?rec = "\<lparr>b_date = (2025, 1, 6), b_state = ''Kano'', competitor = ''Acme'',
         product_type = ''Dressed Birds'', comp_price = Some 3400,
         pullus_price = Some 4000, b_notes = []\<rparr>"
  have a: "purchase_row 2025 [] ?row = Inr [((2025, 2), \<lparr>acc_birds = 100, acc_chicken_wt = 50, acc_gizzard_wt = 10,
          acc_dates = [(2025, 1, 6)]\<rparr>)]"
    by code_simp
  then have "purchase_row 2025 [] ?row = Inr [((2025, 2), \<lparr>acc_birds = 100, acc_chicken_wt = 50, acc_gizzard_wt = 10,
          acc_dates = [(2025, 1, 6)]\<rparr>)]
      \<and> [((2025, 2), \<lparr>acc_birds = 100, acc_chicken_wt = 50, acc_gizzard_wt = 10,
          acc_dates = [(2025, 1, 6)]\<rparr>)] \<noteq> []"
    by simp
  with row_filter_current_year [where cy = 2025 and weeks = "[]" and row = ?row]
  have p1: "\<exists>c dt. index ?row COL_DATE = Inr c \<and> parse_date (PStr c) = Inr (Some dt)
      \<and> dt_year dt = 2025"
    by blast
  have f: "fetch_buying_data 2025 ?rows = Inr [?rec]"
    by code_simp
  with row_filter_current_year [where cy = 2025 and data = ?rows and recs = "[?rec]"]
  have "\<forall>b\<in>set [?rec]. competitor b \<noteq> [] \<and>
         (\<exists>idx. find_header 0 ?rows = Some idx \<and>
            admitted_date 2025 (\<lambda>row. index row (col_get (col_map_of (?rows ! idx)) ''Date'' 1))
              (drop (Suc idx) ?rows) (b_date b))"
    by blast
  then have p2: "\<forall>b\<in>set [?rec]. competitor b \<noteq> [] \<and> dt_year (b_date b) = 2025"
    unfolding admitted_date_def by blast
  then have p3: "competitor ?rec \<noteq> [] \<and> dt_year (b_date ?rec) = 2025"
    by simp
  from p1 f p3 show ?thesis by blast
qed

subsection \<open>Grouping by date and location\<close>

lemma lookup_store_other: "k' \<noteq> k \<Longrightarrow> lookup_default d (store k v m) k' = lookup_default d m k'"
  by (simp add: lookup_default_def map_of_store)

lemma pullus_list_group_product:
  "pullus_list (group_product r groups p) key q =
     pullus_list groups key q @ (if q = p then own_contrib r key p else [])"
proof (cases "get_price r p")
  case None
  then show ?thesis by (simp add: group_product_def own_contrib_def Let_def)
next
  case (Some price)
  show ?thesis
  proof (cases "key = (s_date r, s_location r)")
    case False
    with Some show ?thesis
      by (simp add: group_product_def own_contrib_def pullus_list_def Let_def lookup_store_other)
  next
    case True
    with Some show ?thesis
      by (cases "q = p")
         (simp_all add: group_product_def own_contrib_def pullus_list_def Let_def lookup_store
            append_price_def lookup_store_other)
  qed
qed

lemma comp_list_group_product:
  "comp_list (group_product r groups p) key q =
     comp_list groups key q @ (if q = p then comp_contrib r key p else [])"
proof (cases "get_price r p")
  case None
  then show ?thesis by (simp add: group_product_def comp_contrib_def Let_def)
next
  case (Some price)
  show ?thesis
  proof (cases "key = (s_date r, s_location r)")
    case False
    with Some show ?thesis
      by (simp add: group_product_def comp_contrib_def comp_list_def Let_def lookup_store_other)
  next
    case True
    with Some show ?thesis
      by (cases "q = p")
         (simp_all add: group_product_def comp_contrib_def comp_list_def Let_def lookup_store
            append_price_def lookup_store_other)
  qed
qed

lemma distinct_group_product:
  "distinct (map fst groups) \<Longrightarrow> distinct (map fst (group_product r groups p))"
  by (simp add: group_product_def Let_def distinct_store split: option.splits)

lemma group_record_lists:
  assumes "q \<in> set PRODUCTS"
  shows "pullus_list (group_record groups r) key q = pullus_list groups key q @ own_contrib r key q"
    and "comp_list (group_record groups r) key q = comp_list groups key q @ comp_contrib r key q"
  using assms
  by (auto simp: group_record_def PRODUCTS_def pullus_list_group_product comp_list_group_product)

lemma distinct_group_record:
  "distinct (map fst groups) \<Longrightarrow> distinct (map fst (group_record groups r))"
  by (simp add: group_record_def PRODUCTS_def distinct_group_product)

lemma grouped_lists:
  assumes "q \<in> set PRODUCTS"
  shows "pullus_list (foldl group_record groups records) key q
           = pullus_list groups key q @ own_prices records key q"
    and "comp_list (foldl group_record groups records) key q
           = comp_list groups key q @ competitor_prices records key q"
proof -
  show "pullus_list (foldl group_record groups records) key q
           = pullus_list groups key q @ own_prices records key q"
    by (induction records arbitrary: groups)
       (simp_all add: own_prices_def group_record_lists [OF assms])
  show "comp_list (foldl group_record groups records) key q
           = comp_list groups key q @ competitor_prices records key q"
    by (induction records arbitrary: groups)
       (simp_all add: competitor_prices_def group_record_lists [OF assms])
qed

lemma distinct_groups:
  "distinct (map fst groups) \<Longrightarrow> distinct (map fst (foldl group_record groups records))"
  by (induction records arbitrary: groups) (simp_all add: distinct_group_record)

lemma rounded_mean_eq: "rounded_mean xs = Inr (mean_or_absent xs)"
  by (simp add: rounded_mean_def mean_or_absent_def mean_Inr ebind_Inr)

lemma emap_map:
  assumes "\<And>x. x \<in> set xs \<Longrightarrow> f x = Inr (g x)"
  shows "emap f xs = Inr (map g xs)"
  using assms by (induction xs) (simp_all add: ebind_Inr)

lemma product_stats_of_eq:
  "product_stats_of vals p =
     Inr (p, \<lparr>ps_pullus = mean_or_absent (lookup_default [] (g_pullus vals) p),
              ps_comp_avg = mean_or_absent (lookup_default [] (g_competitors vals) p),
              ps_diff_pct = diff_expected (mean_or_absent (lookup_default [] (g_pullus vals) p))
                              (mean_or_absent (lookup_default [] (g_competitors vals) p))\<rparr>)"
proof (cases "mean_or_absent (lookup_default [] (g_pullus vals) p)")
  case None
  then show ?thesis
    by (simp add: product_stats_of_def rounded_mean_eq ebind_Inr diff_expected_def)
next
  case own: (Some a)
  show ?thesis
  proof (cases "mean_or_absent (lookup_default [] (g_competitors vals) p)")
    case None
    with own show ?thesis
      by (simp add: product_stats_of_def rounded_mean_eq ebind_Inr diff_expected_def)
  next
    case (Some c)
    with own show ?thesis
      by (cases "c = 0")
         (simp_all add: product_stats_of_def rounded_mean_eq ebind_Inr diff_expected_def
            pct_change_Inr)
  qed
qed

lemma agg_row_of_eq:
  "agg_row_of ((dt, loc), vals) =
     Inr \<lparr>r_date = dt, r_location = loc, r_comp_brands = length (g_comp_brands vals),
          r_products = map (\<lambda>p. (p,
            \<lparr>ps_pullus = mean_or_absent (lookup_default [] (g_pullus vals) p),
             ps_comp_avg = mean_or_absent (lookup_default [] (g_competitors vals) p),
             ps_diff_pct = diff_expected (mean_or_absent (lookup_default [] (g_pullus vals) p))
                             (mean_or_absent (lookup_default [] (g_competitors vals) p))\<rparr>))
            PRODUCTS\<rparr>"
  by (simp add: agg_row_of_def emap_map [OF product_stats_of_eq] ebind_Inr)

lemma aggregate_by_date_location_eq:
  "aggregate_by_date_location records =
     Inr (map (\<lambda>item. projr (agg_row_of item)) (sort_key fst (foldl group_record [] records)))"
  unfolding aggregate_by_date_location_def
proof (rule emap_map)
  fix item :: "(date \<times> string) \<times> group_acc"
  obtain dt loc vals where "item = ((dt, loc), vals)" by (cases item) auto
  then show "agg_row_of item = Inr (projr (agg_row_of item))"
    by (simp add: agg_row_of_eq)
qed

lemma lookup_member:
  assumes "distinct (map fst m)" and "(k, v) \<in> set m"
  shows "lookup_default d m k = v"
  using assms by (simp add: lookup_default_def)

lemma aggregate_rows:
  assumes "aggregate_by_date_location records = Inr rows" and "row \<in> set rows"
    and "(p, st) \<in> set (r_products row)"
  shows "p \<in> set PRODUCTS
     \<and> ps_pullus st = mean_or_absent (own_prices records (r_date row, r_location row) p)
     \<and> ps_comp_avg st = mean_or_absent (competitor_prices records (r_date row, r_location row) p)
     \<and> ps_diff_pct st = diff_expected (ps_pullus st) (ps_comp_avg st)"
proof -
  let ?groups = "foldl group_record [] records"
  from assms(1) have "rows = map (\<lambda>item. projr (agg_row_of item)) (sort_key fst ?groups)"
    by (simp add: aggregate_by_date_location_eq)
  with assms(2) obtain item where item: "item \<in> set ?groups" and row: "row = projr (agg_row_of item)"
    by auto
  obtain dt loc vals where i: "item = ((dt, loc), vals)" by (cases item) auto
  have d: "distinct (map fst ?groups)" by (rule distinct_groups) simp
  from d item have vals: "lookup_default group_default ?groups (dt, loc) = vals"
    unfolding i by (rule lookup_member)
  have roweq: "row = \<lparr>r_date = dt, r_location = loc, r_comp_brands = length (g_comp_brands vals),
          r_products = map (\<lambda>p. (p,
            \<lparr>ps_pullus = mean_or_absent (lookup_default [] (g_pullus vals) p),
             ps_comp_avg = mean_or_absent (lookup_default [] (g_competitors vals) p),
             ps_diff_pct = diff_expected (mean_or_absent (lookup_default [] (g_pullus vals) p))
                             (mean_or_absent (lookup_default [] (g_competitors vals) p))\<rparr>))
            PRODUCTS\<rparr>"
    unfolding row i by (simp add: agg_row_of_eq)
  from assms(3) have p: "p \<in> set PRODUCTS"
    and st: "st = \<lparr>ps_pullus = mean_or_absent (lookup_default [] (g_pullus vals) p),
             ps_comp_avg = mean_or_absent (lookup_default [] (g_competitors vals) p),
             ps_diff_pct = diff_expected (mean_or_absent (lookup_default [] (g_pullus vals) p))
                             (mean_or_absent (lookup_default [] (g_competitors vals) p))\<rparr>"
    unfolding roweq by auto
  have e1: "pullus_list [] (dt, loc) p = []" and e2: "comp_list [] (dt, loc) p = []"
    by (simp_all add: pullus_list_def comp_list_def lookup_default_def group_default_def)
  have "pullus_list ?groups (dt, loc) p = lookup_default [] (g_pullus vals) p"
    by (simp only: pullus_list_def vals)
  with grouped_lists(1) [OF p, of "[]" records "(dt, loc)"] e1
  have own: "lookup_default [] (g_pullus vals) p = own_prices records (dt, loc) p"
    by simp
  have "comp_list ?groups (dt, loc) p = lookup_default [] (g_competitors vals) p"
    by (simp only: comp_list_def vals)
  with grouped_lists(2) [OF p, of "[]" records "(dt, loc)"] e2
  have cmp: "lookup_default [] (g_competitors vals) p = competitor_prices records (dt, loc) p"
    by simp
  show ?thesis
    unfolding st using p by (simp add: roweq own cmp)
qed

lemma compute_summary_eq:
  "compute_summary records =
     Inr \<lparr>avg_pullus = Some (mean_or_zero (truthy_prices pullus_price
             (filter (\<lambda>r. product_type r = ''Dressed Birds'') records))),
          avg_comp = Some (mean_or_zero (truthy_prices comp_price
             (filter (\<lambda>r. product_type r = ''Dressed Birds'') records))),
          diff_pct = Some
            (let ap = mean_or_zero (truthy_prices pullus_price
                        (filter (\<lambda>r. product_type r = ''Dressed Birds'') records));
                 ac = mean_or_zero (truthy_prices comp_price
                        (filter (\<lambda>r. product_type r = ''Dressed Birds'') records))
             in if ac = 0 then 0 else py_round ((ap - ac) / ac * 100) 1),
          diff_abs = Some (py_round
            (mean_or_zero (truthy_prices pullus_price
               (filter (\<lambda>r. product_type r = ''Dressed Birds'') records))
             - mean_or_zero (truthy_prices comp_price
               (filter (\<lambda>r. product_type r = ''Dressed Birds'') records))) 0),
          total_entries = length records,
          dressed_entries = length (filter (\<lambda>r. product_type r = ''Dressed Birds'') records),
          live_entries = length (filter (\<lambda>r. product_type r = ''Live Birds'') records),
          live_comp_prices = truthy_prices comp_price
            (filter (\<lambda>r. product_type r = ''Live Birds'') records)\<rparr>"
proof -
  have m: "rounded_mean_or_zero xs = Inr (mean_or_zero xs)" for xs
    by (simp add: rounded_mean_or_zero_def mean_or_zero_def mean_Inr ebind_Inr)
  show ?thesis
    by (simp add: compute_summary_def Let_def m ebind_Inr pct_change_Inr)
qed

end
